theory Spec2Isabelle
  imports Main "HOL-Library.Signed_Division"
begin

section \<open>Cards\<close>

text \<open>
  A card is the object \<^verbatim>\<open>{ suit, rank }\<close> that \<^verbatim>\<open>createDeck\<close> builds. The four suit
  strings and the thirteen rank strings of \<^verbatim>\<open>createDeck\<close> are the constructors below;
  \<^verbatim>\<open>getRankValue\<close> is the lookup table of the source (its \<^verbatim>\<open>|| 0\<close> fallback is for
  rank strings outside the table, which these types do not contain).
\<close>

datatype suit = Hearts | Diamonds | Clubs | Spades

datatype rank = R2 | R3 | R4 | R5 | R6 | R7 | R8 | R9 | R10 | RJ | RQ | RK | RA

record card =
  suit :: suit
  rank :: rank

text \<open>The object \<^verbatim>\<open>{ rank, suit, value }\<close> that \<^verbatim>\<open>evaluateHand\<close> maps each card to.\<close>

record ecard = card +
  cvalue :: int

fun getRankValue :: "rank \<Rightarrow> int" where
  "getRankValue R2 = 2"
| "getRankValue R3 = 3"
| "getRankValue R4 = 4"
| "getRankValue R5 = 5"
| "getRankValue R6 = 6"
| "getRankValue R7 = 7"
| "getRankValue R8 = 8"
| "getRankValue R9 = 9"
| "getRankValue R10 = 10"
| "getRankValue RJ = 11"
| "getRankValue RQ = 12"
| "getRankValue RK = 13"
| "getRankValue RA = 14"

definition withValue :: "card \<Rightarrow> ecard" where
  "withValue c = \<lparr>suit = suit c, rank = rank c, cvalue = getRankValue (rank c)\<rparr>"

section \<open>Hand evaluation\<close>

text \<open>
  A ranking check returns \<^verbatim>\<open>null\<close> (\<open>None\<close>) or an object with a name, a score and the
  cards used. The cards of a straight are produced by \<^verbatim>\<open>Array.find\<close>, whose result may
  be \<^verbatim>\<open>undefined\<close>, so the entries are optional. Reading \<^verbatim>\<open>xs[0].value\<close> when
  \<^verbatim>\<open>xs[0]\<close> is \<^verbatim>\<open>undefined\<close> throws a TypeError, which is the \<open>Inl\<close> branch.
\<close>

text \<open>
  The errors: a TypeError of the runtime, and one constructor for each message the engine
  throws ("Player already in room", "Room is full", "Player not in room", "Need at least 2
  players to start", "Player not found", "Not your turn", "Player has folded", "Cannot
  check when there is a bet to call", "Invalid action", "Cannot bet when there is already
  a bet", "Bet must be at least minBet", "Not enough chips", "Raise must be at least
  minBet", "No chips to go all-in with").
\<close>

datatype error =
    TypeError
  | PlayerAlreadyInRoom | RoomIsFull | PlayerNotInRoom
  | NeedTwoPlayers
  | PlayerNotFound | NotYourTurn | PlayerHasFolded
  | CannotCheck | InvalidAction
  | CannotBet | BetTooSmall | NotEnoughChips | RaiseTooSmall
  | NoChipsForAllIn

record hand_value =
  name :: string
  score :: int
  cards :: "ecard option list"

definition headValue :: "ecard list \<Rightarrow> error + int" where
  "headValue cs = (case cs of [] \<Rightarrow> Inl TypeError | c # _ \<Rightarrow> Inr (cvalue c))"

definition headValueU :: "ecard option list \<Rightarrow> error + int" where
  "headValueU cs = (case cs of Some c # _ \<Rightarrow> Inr (cvalue c) | _ \<Rightarrow> Inl TypeError)"

text \<open>
  \<^verbatim>\<open>groupByRank\<close> and \<^verbatim>\<open>groupBySuit\<close> fill a plain object, one array per key, each
  array in the order of the input. The object is an association list in insertion order.
\<close>

fun insertGroup :: "'k \<Rightarrow> 'v \<Rightarrow> ('k \<times> 'v list) list \<Rightarrow> ('k \<times> 'v list) list" where
  "insertGroup k v [] = [(k, [v])]"
| "insertGroup k v ((k', vs) # g) =
     (if k = k' then (k', vs @ [v]) # g else (k', vs) # insertGroup k v g)"

definition groupByKey :: "('v \<Rightarrow> 'k) \<Rightarrow> 'v list \<Rightarrow> ('k \<times> 'v list) list" where
  "groupByKey f cs = foldl (\<lambda>g c. insertGroup (f c) c g) [] cs"

definition groupByRank :: "ecard list \<Rightarrow> (rank \<times> ecard list) list" where
  "groupByRank cs = groupByKey rank cs"

definition groupBySuit :: "ecard list \<Rightarrow> (suit \<times> ecard list) list" where
  "groupBySuit cs = groupByKey suit cs"

text \<open>
  \<^verbatim>\<open>Object.entries\<close> lists the keys that are array indices first, in ascending numeric
  order, and then the other string keys in insertion order. The rank strings
  \<^verbatim>\<open>"2"\<close> .. \<^verbatim>\<open>"10"\<close> are array indices, \<^verbatim>\<open>"J"\<close>, \<^verbatim>\<open>"Q"\<close>, \<^verbatim>\<open>"K"\<close>, \<^verbatim>\<open>"A"\<close> and the suit
  names are not.
\<close>

definition isIndexKey :: "rank \<Rightarrow> bool" where
  "isIndexKey r = (getRankValue r \<le> 10)"

definition rankEntries :: "(rank \<times> ecard list) list \<Rightarrow> (rank \<times> ecard list) list" where
  "rankEntries g =
     sort_key (\<lambda>e. getRankValue (fst e)) (filter (\<lambda>e. isIndexKey (fst e)) g)
     @ filter (\<lambda>e. \<not> isIndexKey (fst e)) g"

text \<open>
  \<^verbatim>\<open>reduce((sum, card, index) => sum + card.value * Math.pow(10, e - index), 0)\<close>
  on an array of at most \<open>e + 1\<close> cards: the exponent starts at \<open>e\<close> and goes down by one.
\<close>

fun weightedSum :: "nat \<Rightarrow> ecard list \<Rightarrow> int" where
  "weightedSum e [] = 0"
| "weightedSum e (c # cs) = cvalue c * 10 ^ e + weightedSum (e - 1) cs"

definition checkHighCard :: "ecard list \<Rightarrow> hand_value" where
  "checkHighCard cs =
     (let bestCards = take 5 cs
      in \<lparr>name = ''High Card'', score = weightedSum 4 bestCards, cards = map Some bestCards\<rparr>)"

definition checkPair :: "ecard list \<Rightarrow> error + hand_value option" where
  "checkPair cs =
     (case find (\<lambda>e. 2 \<le> length (snd e)) (rankEntries (groupByRank cs)) of
        None \<Rightarrow> Inr None
      | Some (r, pairCards) \<Rightarrow>
          (case headValue pairCards of
             Inl e \<Rightarrow> Inl e
           | Inr pv \<Rightarrow>
               (let kickers = take 3 (filter (\<lambda>c. cvalue c \<noteq> pv) cs)
                in Inr (Some \<lparr>name = ''Pair'',
                              score = 1000 + pv * 100 + weightedSum 2 kickers,
                              cards = map Some (take 2 pairCards @ kickers)\<rparr>))))"

text \<open>
  In \<^verbatim>\<open>checkTwoPair\<close> the comparator of \<^verbatim>\<open>pairs.sort\<close> reads \<^verbatim>\<open>b[1][0].value\<close>, which
  throws on an empty group; the sort is stable and puts the higher pair first.
\<close>

definition checkTwoPair :: "ecard list \<Rightarrow> error + hand_value option" where
  "checkTwoPair cs =
     (let pairs = filter (\<lambda>e. 2 \<le> length (snd e)) (rankEntries (groupByRank cs))
      in if length pairs < 2 then Inr None
         else if [] \<in> set (map snd pairs) then Inl TypeError
         else
           (case sort_key (\<lambda>e. - cvalue (hd (snd e))) pairs of
              (hr, highPairCards) # (lr, lowPairCards) # _ \<Rightarrow>
                (let hv = cvalue (hd highPairCards);
                     lv = cvalue (hd lowPairCards);
                     kicker = find (\<lambda>c. cvalue c \<noteq> hv \<and> cvalue c \<noteq> lv) cs;
                     handCards = take 2 highPairCards @ take 2 lowPairCards
                 in Inr (Some \<lparr>name = ''Two Pair'',
                               score = 2000 + hv * 100 + lv * 10
                                 + (case kicker of None \<Rightarrow> 0 | Some k \<Rightarrow> cvalue k),
                               cards = map Some
                                 (case kicker of None \<Rightarrow> handCards | Some k \<Rightarrow> handCards @ [k])\<rparr>))
            | _ \<Rightarrow> Inl TypeError))"

definition checkThreeOfAKind :: "ecard list \<Rightarrow> error + hand_value option" where
  "checkThreeOfAKind cs =
     (case find (\<lambda>e. length (snd e) = 3) (rankEntries (groupByRank cs)) of
        None \<Rightarrow> Inr None
      | Some (r, threeCards) \<Rightarrow>
          (case headValue threeCards of
             Inl e \<Rightarrow> Inl e
           | Inr tv \<Rightarrow>
               (let kickers = take 2 (filter (\<lambda>c. cvalue c \<noteq> tv) cs)
                in Inr (Some \<lparr>name = ''Three of a Kind'',
                              score = 3000 + tv * 100 + sum_list (map cvalue kickers),
                              cards = map Some (threeCards @ kickers)\<rparr>))))"

text \<open>
  The loop of \<^verbatim>\<open>isConsecutive\<close> and the loop of \<^verbatim>\<open>checkStraight\<close> over the start index
  \<open>i\<close> of a window of five, as recursion on the remaining list.
\<close>

fun isConsecutive :: "int list \<Rightarrow> bool" where
  "isConsecutive (a # b # rest) = (b = a - 1 \<and> isConsecutive (b # rest))"
| "isConsecutive _ = True"

fun regularStraight :: "int list \<Rightarrow> int list option" where
  "regularStraight [] = None"
| "regularStraight (v # vs) =
     (if length (v # vs) < 5 then None
      else if isConsecutive (take 5 (v # vs)) then Some (take 5 (v # vs))
      else regularStraight vs)"

text \<open>\<^verbatim>\<open>[...new Set(xs)]\<close> keeps the first occurrence of each element.\<close>

fun uniq :: "'a list \<Rightarrow> 'a list" where
  "uniq [] = []"
| "uniq (x # xs) = x # filter (\<lambda>y. y \<noteq> x) (uniq xs)"

definition uniqueValues :: "ecard list \<Rightarrow> int list" where
  "uniqueValues cs = sort_key uminus (uniq (map cvalue cs))"

definition checkStraight :: "ecard list \<Rightarrow> hand_value option" where
  "checkStraight cs =
     (let uv = uniqueValues cs
      in case regularStraight uv of
           Some sequence \<Rightarrow>
             Some \<lparr>name = ''Straight'', score = 4000 + hd sequence,
                   cards = map (\<lambda>v. find (\<lambda>c. cvalue c = v) cs) sequence\<rparr>
         | None \<Rightarrow>
             if 14 \<in> set uv \<and> 5 \<in> set uv \<and> 4 \<in> set uv \<and> 3 \<in> set uv \<and> 2 \<in> set uv
             then Some \<lparr>name = ''Straight'', score = 4000 + 5,
                        cards = map (\<lambda>v. find (\<lambda>c. cvalue c = v) cs) [5, 4, 3, 2, 14]\<rparr>
             else None)"

definition flushCards :: "ecard list \<Rightarrow> ecard list option" where
  "flushCards cs =
     (case find (\<lambda>e. 5 \<le> length (snd e)) (groupBySuit cs) of
        None \<Rightarrow> None
      | Some (s, fc) \<Rightarrow> Some (take 5 fc))"

definition checkFlush :: "ecard list \<Rightarrow> hand_value option" where
  "checkFlush cs =
     (case flushCards cs of
        None \<Rightarrow> None
      | Some bestFlushCards \<Rightarrow>
          Some \<lparr>name = ''Flush'', score = 5000 + weightedSum 4 bestFlushCards,
                cards = map Some bestFlushCards\<rparr>)"

text \<open>
  In \<^verbatim>\<open>checkFullHouse\<close> the test \<^verbatim>\<open>cards !== threeOfAKind?.[1]\<close> compares arrays by
  identity. Every key of the grouping has its own array, so the entry differs from the
  three of a kind exactly when its key does; with no three of a kind every entry passes.
\<close>

definition checkFullHouse :: "ecard list \<Rightarrow> error + hand_value option" where
  "checkFullHouse cs =
     (let entries = rankEntries (groupByRank cs);
          threeOfAKind = find (\<lambda>e. length (snd e) = 3) entries;
          pair = find (\<lambda>e. 2 \<le> length (snd e) \<and> Some (fst e) \<noteq> map_option fst threeOfAKind) entries
      in case (threeOfAKind, pair) of
           (Some (tr, threeCards), Some (pr, pairCards)) \<Rightarrow>
             (case (headValue threeCards, headValue pairCards) of
                (Inr tv, Inr pv) \<Rightarrow>
                  Inr (Some \<lparr>name = ''Full House'', score = 6000 + tv * 100 + pv,
                             cards = map Some (threeCards @ take 2 pairCards)\<rparr>)
              | _ \<Rightarrow> Inl TypeError)
         | _ \<Rightarrow> Inr None)"

definition checkFourOfAKind :: "ecard list \<Rightarrow> error + hand_value option" where
  "checkFourOfAKind cs =
     (case find (\<lambda>e. length (snd e) = 4) (rankEntries (groupByRank cs)) of
        None \<Rightarrow> Inr None
      | Some (r, fourCards) \<Rightarrow>
          (case headValue fourCards of
             Inl e \<Rightarrow> Inl e
           | Inr fv \<Rightarrow>
               Inr (Some \<lparr>name = ''Four of a Kind'', score = 7000 + fv,
                          cards = map Some
                            (case find (\<lambda>c. cvalue c \<noteq> fv) cs of
                               None \<Rightarrow> fourCards | Some kicker \<Rightarrow> fourCards @ [kicker])\<rparr>)))"

definition checkStraightFlush :: "ecard list \<Rightarrow> error + hand_value option" where
  "checkStraightFlush cs =
     (case flushCards cs of
        None \<Rightarrow> Inr None
      | Some fc \<Rightarrow>
          (case checkStraight fc of
             None \<Rightarrow> Inr None
           | Some straight \<Rightarrow>
               (case headValueU (cards straight) of
                  Inl e \<Rightarrow> Inl e
                | Inr v \<Rightarrow>
                    Inr (Some \<lparr>name = ''Straight Flush'', score = 8000 + v,
                               cards = cards straight\<rparr>))))"

definition checkRoyalFlush :: "ecard list \<Rightarrow> error + hand_value option" where
  "checkRoyalFlush cs =
     (case checkStraightFlush cs of
        Inl e \<Rightarrow> Inl e
      | Inr None \<Rightarrow> Inr None
      | Inr (Some straightFlush) \<Rightarrow>
          (case headValueU (cards straightFlush) of
             Inl e \<Rightarrow> Inl e
           | Inr v \<Rightarrow>
               if v = 14
               then Inr (Some \<lparr>name = ''Royal Flush'', score = 9000 + v,
                               cards = cards straightFlush\<rparr>)
               else Inr None))"

text \<open>
  \<^verbatim>\<open>a || b\<close> on check results: an object is truthy, \<^verbatim>\<open>null\<close> falls through to \<open>b\<close>, and an
  exception in \<open>a\<close> leaves the chain.
\<close>

definition orElse ::
  "error + hand_value option \<Rightarrow> error + hand_value option \<Rightarrow> error + hand_value option" where
  "orElse a b = (case a of Inl e \<Rightarrow> Inl e | Inr (Some r) \<Rightarrow> Inr (Some r) | Inr None \<Rightarrow> b)"

definition evaluateSorted :: "ecard list \<Rightarrow> error + hand_value" where
  "evaluateSorted sortedCards =
     (case orElse (checkRoyalFlush sortedCards)
            (orElse (checkStraightFlush sortedCards)
            (orElse (checkFourOfAKind sortedCards)
            (orElse (checkFullHouse sortedCards)
            (orElse (Inr (checkFlush sortedCards))
            (orElse (Inr (checkStraight sortedCards))
            (orElse (checkThreeOfAKind sortedCards)
            (orElse (checkTwoPair sortedCards)
                    (checkPair sortedCards)))))))) of
        Inl e \<Rightarrow> Inl e
      | Inr (Some r) \<Rightarrow> Inr r
      | Inr None \<Rightarrow> Inr (checkHighCard sortedCards))"

text \<open>
  \<^verbatim>\<open>cards.sort((a, b) => b.value - a.value)\<close> is a stable sort, descending by value.
\<close>

definition evaluateHand :: "card list \<Rightarrow> card list \<Rightarrow> error + hand_value" where
  "evaluateHand playerHand communityCards =
     (let allCards = playerHand @ communityCards
      in if length allCards < 5
         then Inr \<lparr>name = ''Incomplete Hand'', score = 0, cards = []\<rparr>
         else evaluateSorted (sort_key (\<lambda>c. - cvalue c) (map withValue allCards)))"

section \<open>Rooms and players\<close>

text \<open>
  The player object of \<^verbatim>\<open>addPlayerToRoom\<close> and the room object of
  \<^verbatim>\<open>createInitialGameState\<close>. The hand of a player and the players of a room are type
  parameters, because the view sent to subscribers has the same fields with placeholder
  objects in the hands. The time stamps \<^verbatim>\<open>lastSeen\<close>, \<^verbatim>\<open>createdAt\<close> and \<^verbatim>\<open>updatedAt\<close>
  are left out: no engine function reads them.
\<close>

type_synonym player_id = string

record 'h player_of =
  pid :: player_id
  username :: string
  chips :: int
  bet :: int
  pstatus :: string
  hand :: "'h list"
  folded :: bool
  allIn :: bool
  connected :: bool

type_synonym player = "card player_of"

datatype phase = Waiting | Preflop | Flop | Turn | River | Showdown

datatype room_status = StatusWaiting | StatusPlaying | StatusFinished

record 'p room_of =
  rid :: string
  rname :: string
  creator :: player_id
  players :: "'p list"
  maxPlayers :: nat
  minBet :: int
  maxBet :: int
  status :: room_status
  phase :: phase
  pot :: int
  currentBet :: int
  currentTurn :: "player_id option"
  lastRaiser :: "player_id option"
  deck :: "card list"
  communityCards :: "card list"
  dealerIndex :: nat
  smallBlind :: "player_id option"
  bigBlind :: "player_id option"
  playersActedThisRound :: "player_id list"

type_synonym room = "player room_of"

text \<open>
  A function that throws returns \<open>Inl (e, r)\<close>: the error and the room object as it is at
  the throw, with every mutation made before the throw.
\<close>

type_synonym 'a thrown_or = "(error \<times> room) + 'a"

definition createInitialGameState ::
  "string \<Rightarrow> string \<Rightarrow> player_id \<Rightarrow> nat \<Rightarrow> int \<Rightarrow> int \<Rightarrow> room" where
  "createInitialGameState roomId nm creatorId maxP minB maxB =
     \<lparr>rid = roomId, rname = nm, creator = creatorId, players = [],
      maxPlayers = maxP, minBet = minB, maxBet = maxB,
      status = StatusWaiting, phase = Waiting, pot = 0, currentBet = 0,
      currentTurn = None, lastRaiser = None, deck = [], communityCards = [],
      dealerIndex = 0, smallBlind = None, bigBlind = None,
      playersActedThisRound = []\<rparr>"

definition addPlayerToRoom :: "room \<Rightarrow> player_id \<Rightarrow> string \<Rightarrow> room thrown_or" where
  "addPlayerToRoom room i uname =
     (if find (\<lambda>p. pid p = i) (players room) \<noteq> None then Inl (PlayerAlreadyInRoom, room)
      else if maxPlayers room \<le> length (players room) then Inl (RoomIsFull, room)
      else Inr (room\<lparr>players := players room @
             [\<lparr>pid = i, username = uname, chips = 1000, bet = 0, pstatus = ''active'',
               hand = [], folded = False, allIn = False, connected = True\<rparr>]\<rparr>))"

text \<open>
  \<^verbatim>\<open>Array.findIndex\<close>: the position of the first match. \<^verbatim>\<open>Array.find\<close> returns the
  object at that position, and the source mutates that object in place, so the model
  updates the list at this index.
\<close>

fun findIndex :: "('a \<Rightarrow> bool) \<Rightarrow> 'a list \<Rightarrow> nat option" where
  "findIndex P [] = None"
| "findIndex P (x # xs) = (if P x then Some 0 else map_option Suc (findIndex P xs))"

definition removePlayerFromRoom :: "room \<Rightarrow> player_id \<Rightarrow> room thrown_or" where
  "removePlayerFromRoom room playerId =
     (case findIndex (\<lambda>p. pid p = playerId) (players room) of
        None \<Rightarrow> Inl (PlayerNotInRoom, room)
      | Some i \<Rightarrow> Inr (room\<lparr>players := take i (players room) @ drop (Suc i) (players room)\<rparr>))"

definition setPlayer :: "room \<Rightarrow> nat \<Rightarrow> player \<Rightarrow> room" where
  "setPlayer room i p = room\<lparr>players := (players room)[i := p]\<rparr>"

definition markAllIn :: "player \<Rightarrow> player" where
  "markAllIn p = (if chips p = 0 then p\<lparr>allIn := True\<rparr> else p)"

section \<open>Actions\<close>

definition processCall :: "room \<Rightarrow> nat \<Rightarrow> room" where
  "processCall room i =
     (let player = players room ! i;
          callAmount = currentBet room - bet player
      in if callAmount \<le> 0 then room
         else
           (let actualCall = min callAmount (chips player)
            in setPlayer (room\<lparr>pot := pot room + actualCall\<rparr>) i
                 (markAllIn (player\<lparr>chips := chips player - actualCall,
                                     bet := bet player + actualCall\<rparr>))))"

definition processBet :: "room \<Rightarrow> nat \<Rightarrow> int \<Rightarrow> room thrown_or" where
  "processBet room i amount =
     (let player = players room ! i
      in if 0 < currentBet room then Inl (CannotBet, room)
         else if amount < minBet room then Inl (BetTooSmall, room)
         else if chips player < amount then Inl (NotEnoughChips, room)
         else Inr (setPlayer
                (room\<lparr>pot := pot room + amount, currentBet := amount,
                       lastRaiser := Some (pid player),
                       playersActedThisRound := [pid player]\<rparr>) i
                (markAllIn (player\<lparr>chips := chips player - amount, bet := amount\<rparr>))))"

definition processRaise :: "room \<Rightarrow> nat \<Rightarrow> int \<Rightarrow> room thrown_or" where
  "processRaise room i raiseAmount =
     (let player = players room ! i;
          totalBet = currentBet room + raiseAmount
      in if chips player + bet player < totalBet then Inl (NotEnoughChips, room)
         else if raiseAmount < minBet room then Inl (RaiseTooSmall, room)
         else
           (let additionalAmount = totalBet - bet player
            in Inr (setPlayer
                 (room\<lparr>pot := pot room + additionalAmount, currentBet := totalBet,
                        lastRaiser := Some (pid player),
                        playersActedThisRound := [pid player]\<rparr>) i
                 (markAllIn (player\<lparr>chips := chips player - additionalAmount,
                                     bet := totalBet\<rparr>)))))"

definition processAllIn :: "room \<Rightarrow> nat \<Rightarrow> room thrown_or" where
  "processAllIn room i =
     (let player = players room ! i
      in if chips player \<le> 0 then Inl (NoChipsForAllIn, room)
         else
           (let allInAmount = chips player;
                player' = player\<lparr>bet := bet player + allInAmount, chips := 0, allIn := True\<rparr>;
                room' = setPlayer (room\<lparr>pot := pot room + allInAmount\<rparr>) i player'
            in if currentBet room < bet player'
               then Inr (room'\<lparr>currentBet := bet player', lastRaiser := Some (pid player'),
                               playersActedThisRound := [pid player']\<rparr>)
               else Inr room'))"

text \<open>
  The action is the string the caller sent; the \<^verbatim>\<open>switch\<close> compares it with the six
  names the engine knows and throws on any other. The amount is an integer.
\<close>

definition dispatchAction :: "room \<Rightarrow> nat \<Rightarrow> string \<Rightarrow> int \<Rightarrow> room thrown_or" where
  "dispatchAction room i action amount =
     (let player = players room ! i
      in if action = ''fold'' then Inr (setPlayer room i (player\<lparr>folded := True\<rparr>))
         else if action = ''check''
           then (if bet player < currentBet room then Inl (CannotCheck, room) else Inr room)
         else if action = ''call'' then Inr (processCall room i)
         else if action = ''bet'' then processBet room i amount
         else if action = ''raise'' then processRaise room i amount
         else if action = ''allin'' then processAllIn room i
         else Inl (InvalidAction, room))"

definition processPlayerAction ::
  "room \<Rightarrow> player_id \<Rightarrow> string \<Rightarrow> int \<Rightarrow> room thrown_or" where
  "processPlayerAction room playerId action amount =
     (case findIndex (\<lambda>p. pid p = playerId) (players room) of
        None \<Rightarrow> Inl (PlayerNotFound, room)
      | Some i \<Rightarrow>
          if currentTurn room \<noteq> Some playerId then Inl (NotYourTurn, room)
          else if folded (players room ! i) then Inl (PlayerHasFolded, room)
          else
            (case dispatchAction room i action amount of
               Inl t \<Rightarrow> Inl t
             | Inr r \<Rightarrow>
                 Inr (if playerId \<in> set (playersActedThisRound r) then r
                      else r\<lparr>playersActedThisRound := playersActedThisRound r @ [playerId]\<rparr>)))"

section \<open>Starting a hand\<close>

definition createDeck :: "card list" where
  "createDeck =
     concat (map (\<lambda>s. map (\<lambda>r. \<lparr>suit = s, rank = r\<rparr>)
                        [R2, R3, R4, R5, R6, R7, R8, R9, R10, RJ, RQ, RK, RA])
                 [Hearts, Diamonds, Clubs, Spades])"

text \<open>
  The Fisher-Yates loop of \<^verbatim>\<open>shuffleDeck\<close>, for \<open>i\<close> from the last index down to 1. The
  random index \<^verbatim>\<open>Math.floor(Math.random() * (i + 1))\<close> of step \<open>i\<close> is \<open>pick i\<close>, a
  parameter, reduced into the range \<open>0 .. i\<close> that the source's expression has.
\<close>

fun shuffleFrom :: "(nat \<Rightarrow> nat) \<Rightarrow> nat \<Rightarrow> 'a list \<Rightarrow> 'a list" where
  "shuffleFrom pick 0 xs = xs"
| "shuffleFrom pick (Suc i) xs =
     (let j = pick (Suc i) mod (Suc i + 1)
      in shuffleFrom pick i (xs[Suc i := xs ! j, j := xs ! Suc i]))"

definition shuffleDeck :: "(nat \<Rightarrow> nat) \<Rightarrow> 'a list \<Rightarrow> 'a list" where
  "shuffleDeck pick d = shuffleFrom pick (length d - 1) d"

definition postBlinds :: "room \<Rightarrow> room thrown_or" where
  "postBlinds room =
     (case findIndex (\<lambda>p. Some (pid p) = smallBlind room) (players room) of
        None \<Rightarrow> Inl (TypeError, room)
      | Some si \<Rightarrow>
          (let sbAmount = minBet room div 2;
               bbAmount = minBet room;
               sbPlayer = players room ! si;
               sbPost = min sbAmount (chips sbPlayer);
               room1 = setPlayer (room\<lparr>pot := pot room + sbPost\<rparr>) si
                         (markAllIn (sbPlayer\<lparr>chips := chips sbPlayer - sbPost, bet := sbPost\<rparr>))
           in case findIndex (\<lambda>p. Some (pid p) = bigBlind room) (players room) of
                None \<Rightarrow> Inl (TypeError, room1)
              | Some bi \<Rightarrow>
                  (let bbPlayer = players room1 ! bi;
                       bbPost = min bbAmount (chips bbPlayer);
                       bbPlayer' = markAllIn (bbPlayer\<lparr>chips := chips bbPlayer - bbPost,
                                                       bet := bbPost\<rparr>);
                       room2 = setPlayer (room1\<lparr>pot := pot room1 + bbPost\<rparr>) bi bbPlayer'
                   in Inr (room2\<lparr>currentBet := bet bbPlayer', lastRaiser := bigBlind room\<rparr>))))"

definition assignDealerAndBlinds :: "room \<Rightarrow> room thrown_or" where
  "assignDealerAndBlinds room =
     (let activePlayers = filter (\<lambda>p. 0 < chips p) (players room);
          n = length activePlayers
      in if n < 2 then Inr room
         else
           (let d = dealerIndex room mod n
            in postBlinds
                 (if n = 2
                  then room\<lparr>dealerIndex := d,
                            smallBlind := Some (pid (activePlayers ! d)),
                            bigBlind := Some (pid (activePlayers ! ((d + 1) mod n)))\<rparr>
                  else room\<lparr>dealerIndex := d,
                            smallBlind := Some (pid (activePlayers ! ((d + 1) mod n))),
                            bigBlind := Some (pid (activePlayers ! ((d + 2) mod n)))\<rparr>)))"

text \<open>
  One pass of the inner loop of \<^verbatim>\<open>dealHoleCards\<close>: each player, in seat order, takes the
  last card of the deck (\<^verbatim>\<open>deck.pop()\<close>) while the deck is not empty.
\<close>

fun dealRound :: "card list \<Rightarrow> player list \<Rightarrow> card list \<times> player list" where
  "dealRound d [] = (d, [])"
| "dealRound d (p # ps) =
     (if d = [] then (case dealRound d ps of (d', ps') \<Rightarrow> (d', p # ps'))
      else (case dealRound (butlast d) ps of
              (d', ps') \<Rightarrow> (d', p\<lparr>hand := hand p @ [last d]\<rparr> # ps')))"

definition dealHoleCards :: "room \<Rightarrow> room" where
  "dealHoleCards room =
     (case dealRound (deck room) (players room) of
        (d1, ps1) \<Rightarrow>
          (case dealRound d1 ps1 of
             (d2, ps2) \<Rightarrow> room\<lparr>deck := d2, players := ps2\<rparr>))"

text \<open>
  The \<^verbatim>\<open>while\<close> loop of \<^verbatim>\<open>setFirstPlayerToAct\<close> and \<^verbatim>\<open>setFirstPlayerPostFlop\<close>: from
  the seat \<open>start\<close>, step clockwise over folded and all-in seats, and stop with \<open>start\<close>
  itself when the walk comes back to it. \<open>k\<close> counts the steps taken.
\<close>

function scanActive :: "player list \<Rightarrow> nat \<Rightarrow> nat \<Rightarrow> nat" where
  "scanActive ps start k =
     (let n = length ps; cur = (start + k) mod n
      in if folded (ps ! cur) \<or> allIn (ps ! cur)
         then (if Suc k < n then scanActive ps start (Suc k) else start)
         else cur)"
  by pat_completeness auto
termination
  by (relation "measure (\<lambda>(ps, start, k). length ps - k)") auto

declare scanActive.simps [simp del]

definition setFirstPlayerToAct :: "room \<Rightarrow> room" where
  "setFirstPlayerToAct room =
     (let ps = players room;
          activePlayers = filter (\<lambda>p. \<not> folded p \<and> \<not> allIn p) ps
      in if activePlayers = [] then room
         else
           (let firstPlayerIndex =
                  (case findIndex (\<lambda>p. Some (pid p) = bigBlind room) ps of
                     None \<Rightarrow> 0
                   | Some bbIndex \<Rightarrow> (bbIndex + 1) mod length ps)
            in room\<lparr>currentTurn := Some (pid (ps ! scanActive ps firstPlayerIndex 0))\<rparr>))"

definition startNewHand :: "room \<Rightarrow> (nat \<Rightarrow> nat) \<Rightarrow> room thrown_or" where
  "startNewHand room pick =
     (if length (players room) < 2 then Inl (NeedTwoPlayers, room)
      else
        (let room1 = room\<lparr>status := StatusPlaying, phase := Preflop, pot := 0,
                          communityCards := [], currentBet := 0, lastRaiser := None,
                          playersActedThisRound := []\<rparr>;
             room2 = room1\<lparr>players :=
                       map (\<lambda>p. p\<lparr>hand := [], bet := 0, folded := False, allIn := False,
                                   pstatus := ''active''\<rparr>) (players room1)\<rparr>;
             room3 = room2\<lparr>deck := shuffleDeck pick createDeck\<rparr>
         in case assignDealerAndBlinds room3 of
              Inl t \<Rightarrow> Inl t
            | Inr room4 \<Rightarrow> Inr (setFirstPlayerToAct (dealHoleCards room4))))"

section \<open>Phases and showdown\<close>

definition dealFlop :: "room \<Rightarrow> room" where
  "dealFlop room =
     (let d = deck room
      in if 4 \<le> length d
         then room\<lparr>deck := take (length d - 4) d,
                   communityCards := communityCards room @
                     [d ! (length d - 2), d ! (length d - 3), d ! (length d - 4)]\<rparr>
         else room)"

definition dealTurn :: "room \<Rightarrow> room" where
  "dealTurn room =
     (let d = deck room
      in if 2 \<le> length d
         then room\<lparr>deck := take (length d - 2) d,
                   communityCards := communityCards room @ [d ! (length d - 2)]\<rparr>
         else room)"

text \<open>
  \<^verbatim>\<open>dealRiver\<close> has the statements of \<^verbatim>\<open>dealTurn\<close>.
\<close>

definition dealRiver :: "room \<Rightarrow> room" where
  "dealRiver room = dealTurn room"

definition setFirstPlayerPostFlop :: "room \<Rightarrow> room" where
  "setFirstPlayerPostFlop room =
     (let ps = players room;
          activePlayers = filter (\<lambda>p. \<not> folded p \<and> \<not> allIn p) ps
      in if activePlayers = [] then room
         else room\<lparr>currentTurn :=
                Some (pid (ps ! scanActive ps ((dealerIndex room + 1) mod length ps) 0))\<rparr>)"

text \<open>
  One entry of \<^verbatim>\<open>results\<close> in \<^verbatim>\<open>processShowdown\<close>: the player id, the hole cards and
  the evaluation; the entry's \<^verbatim>\<open>score\<close> is the score of the evaluation.
\<close>

type_synonym result = "player_id \<times> card list \<times> hand_value"

definition resultScore :: "result \<Rightarrow> int" where
  "resultScore r = score (snd (snd r))"

fun evaluateAll :: "card list \<Rightarrow> player list \<Rightarrow> error + result list" where
  "evaluateAll community [] = Inr []"
| "evaluateAll community (p # ps) =
     (case evaluateHand (hand p) community of
        Inl e \<Rightarrow> Inl e
      | Inr hv \<Rightarrow>
          (case evaluateAll community ps of
             Inl e \<Rightarrow> Inl e
           | Inr rs \<Rightarrow> Inr ((pid p, hand p, hv) # rs)))"

datatype showdown_result =
    SingleWinner player_id int
  | ShowdownResult "result list" "(player_id \<times> int) list"

text \<open>
  The \<^verbatim>\<open>winners.map\<close> of \<^verbatim>\<open>processShowdown\<close>: the winner at position \<open>index\<close> is looked up
  by id among the players and receives \<open>winAmount\<close>, plus one chip when \<open>index\<close> is below
  the remainder.
\<close>

fun payWinners ::
  "room \<Rightarrow> int \<Rightarrow> int \<Rightarrow> nat \<Rightarrow> result list \<Rightarrow> (room \<times> (player_id \<times> int) list) thrown_or" where
  "payWinners room winAmount remainder index [] = Inr (room, [])"
| "payWinners room winAmount remainder index (w # ws) =
     (case findIndex (\<lambda>p. pid p = fst w) (players room) of
        None \<Rightarrow> Inl (TypeError, room)
      | Some i \<Rightarrow>
          (let player = players room ! i;
               amount = winAmount + (if int index < remainder then 1 else 0);
               room' = setPlayer room i (player\<lparr>chips := chips player + amount\<rparr>)
           in case payWinners room' winAmount remainder (Suc index) ws of
                Inl t \<Rightarrow> Inl t
              | Inr (r, paid) \<Rightarrow> Inr (r, (fst w, amount) # paid)))"

text \<open>
  \<^verbatim>\<open>Math.floor(room.pot / winners.length)\<close> is \<open>div\<close> on integers and \<^verbatim>\<open>%\<close> is the
  remainder with the sign of the dividend, \<open>smod\<close>. With no winner the source divides by
  zero, but then \<^verbatim>\<open>winners.map\<close> pays nobody.
\<close>

definition processShowdown :: "room \<Rightarrow> (room \<times> showdown_result) thrown_or" where
  "processShowdown room =
     (let activePlayers = filter (\<lambda>p. \<not> folded p) (players room)
      in if length activePlayers = 1
         then
           (case findIndex (\<lambda>p. \<not> folded p) (players room) of
              None \<Rightarrow> Inl (TypeError, room)
            | Some i \<Rightarrow>
                (let winner = players room ! i
                 in Inr (setPlayer room i (winner\<lparr>chips := chips winner + pot room\<rparr>),
                         SingleWinner (pid winner) (pot room))))
         else
           (case evaluateAll (communityCards room) activePlayers of
              Inl e \<Rightarrow> Inl (e, room)
            | Inr evaluated \<Rightarrow>
                (let results = sort_key (\<lambda>r. - resultScore r) evaluated;
                     winners = (case results of
                                  [] \<Rightarrow> []
                                | best # _ \<Rightarrow> filter (\<lambda>r. resultScore r = resultScore best) results);
                     winAmount = pot room div int (length winners);
                     remainder = pot room smod int (length winners)
                 in case payWinners room winAmount remainder 0 winners of
                      Inl t \<Rightarrow> Inl t
                    | Inr (r, paid) \<Rightarrow> Inr (r, ShowdownResult results paid))))"

definition resetForBettingRound :: "room \<Rightarrow> room" where
  "resetForBettingRound room =
     setFirstPlayerPostFlop
       (room\<lparr>currentBet := 0, lastRaiser := None, playersActedThisRound := [],
              players := map (\<lambda>p. p\<lparr>bet := 0\<rparr>) (players room)\<rparr>)"

definition moveToNextPhase :: "room \<Rightarrow> (room \<times> showdown_result option) thrown_or" where
  "moveToNextPhase room =
     (case phase room of
        Preflop \<Rightarrow> Inr (resetForBettingRound ((dealFlop room)\<lparr>phase := Flop\<rparr>), None)
      | Flop \<Rightarrow> Inr (resetForBettingRound ((dealTurn room)\<lparr>phase := Turn\<rparr>), None)
      | Turn \<Rightarrow> Inr (resetForBettingRound ((dealRiver room)\<lparr>phase := River\<rparr>), None)
      | River \<Rightarrow>
          (case processShowdown (room\<lparr>phase := Showdown\<rparr>) of
             Inl t \<Rightarrow> Inl t
           | Inr (r, res) \<Rightarrow> Inr (r, Some res))
      | _ \<Rightarrow> Inr (resetForBettingRound room, None))"

text \<open>\<^verbatim>\<open>PokerRoomManager.moveToNextPlayer\<close>, which passes the turn after an action.\<close>

definition moveToNextPlayer :: "room \<Rightarrow> room" where
  "moveToNextPlayer room =
     (let activePlayers = filter (\<lambda>p. \<not> folded p \<and> \<not> allIn p \<and> connected p) (players room)
      in if length activePlayers \<le> 1
         then room\<lparr>currentTurn :=
                (case activePlayers of [p] \<Rightarrow> Some (pid p) | _ \<Rightarrow> None)\<rparr>
         else
           (case findIndex (\<lambda>p. Some (pid p) = currentTurn room) activePlayers of
              None \<Rightarrow> room\<lparr>currentTurn := Some (pid (hd activePlayers))\<rparr>
            | Some currentIndex \<Rightarrow>
                room\<lparr>currentTurn :=
                  Some (pid (activePlayers ! ((currentIndex + 1) mod length activePlayers)))\<rparr>))"

section \<open>The view sent to subscribers\<close>

text \<open>
  \<^verbatim>\<open>sanitizeRoomForBroadcast\<close> copies the room with \<^verbatim>\<open>{ ...room }\<close> and, outside the
  showdown phase, replaces the players by copies whose hand holds one \<^verbatim>\<open>{ hidden: true }\<close>
  object per card. An entry of a hand in the view is a card or that placeholder.
\<close>

datatype view_card = Shown card | HiddenCard

definition withHand :: "'a player_of \<Rightarrow> 'b list \<Rightarrow> 'b player_of" where
  "withHand p h =
     \<lparr>pid = pid p, username = username p, chips = chips p, bet = bet p,
      pstatus = pstatus p, hand = h, folded = folded p, allIn = allIn p,
      connected = connected p\<rparr>"

definition withPlayers :: "'p room_of \<Rightarrow> 'q list \<Rightarrow> 'q room_of" where
  "withPlayers r ps =
     \<lparr>rid = rid r, rname = rname r, creator = creator r, players = ps,
      maxPlayers = maxPlayers r, minBet = minBet r, maxBet = maxBet r,
      status = status r, phase = phase r, pot = pot r, currentBet = currentBet r,
      currentTurn = currentTurn r, lastRaiser = lastRaiser r, deck = deck r,
      communityCards = communityCards r, dealerIndex = dealerIndex r,
      smallBlind = smallBlind r, bigBlind = bigBlind r,
      playersActedThisRound = playersActedThisRound r\<rparr>"

definition sanitizeRoomForBroadcast :: "room \<Rightarrow> view_card player_of room_of" where
  "sanitizeRoomForBroadcast room =
     (if phase room \<noteq> Showdown
      then withPlayers room
             (map (\<lambda>player. withHand player (map (\<lambda>_. HiddenCard) (hand player))) (players room))
      else withPlayers room
             (map (\<lambda>player. withHand player (map Shown (hand player))) (players room)))"

section \<open>Auxiliary notions for the proofs\<close>

text \<open>
  What the grouping loop maintains: the keys are distinct, they are the keys of the cards
  read so far, and each array holds the cards of its key in input order.
\<close>

definition grouped :: "('v \<Rightarrow> 'k) \<Rightarrow> ('k \<times> 'v list) list \<Rightarrow> 'v list \<Rightarrow> bool" where
  "grouped f g xs \<longleftrightarrow>
     distinct (map fst g) \<and> fst ` set g = f ` set xs \<and>
     (\<forall>k vs. (k, vs) \<in> set g \<longrightarrow> vs = filter (\<lambda>x. f x = k) xs)"

text \<open>The ten names an evaluation of five or more cards can carry.\<close>

definition categoryNames :: "string list" where
  "categoryNames = [''Royal Flush'', ''Straight Flush'', ''Four of a Kind'', ''Full House'',
     ''Flush'', ''Straight'', ''Three of a Kind'', ''Two Pair'', ''Pair'', ''High Card'']"

text \<open>Concrete cards and boards for the worked examples.\<close>

definition cardOf :: "rank \<Rightarrow> suit \<Rightarrow> card" where
  "cardOf r s = \<lparr>suit = s, rank = r\<rparr>"

definition nameAndScore :: "error + hand_value \<Rightarrow> error + string \<times> int" where
  "nameAndScore res = map_sum id (\<lambda>v. (name v, score v)) res"

definition dryBoard :: "card list" where
  "dryBoard = [cardOf RQ Hearts, cardOf RJ Clubs, cardOf R9 Spades, cardOf R7 Diamonds,
               cardOf R4 Hearts]"

definition wheelBoard :: "card list" where
  "wheelBoard = [cardOf R3 Hearts, cardOf R4 Hearts, cardOf R5 Hearts, cardOf R9 Clubs,
                 cardOf R9 Spades]"

definition broadwayBoard :: "card list" where
  "broadwayBoard = [cardOf RQ Hearts, cardOf RJ Clubs, cardOf R10 Spades, cardOf R7 Diamonds,
               cardOf R4 Hearts]"


section \<open>Worked rooms and the state left by a call\<close>

text \<open>
  The room object after a call that mutates it: the room at the throw, or the room returned.
\<close>

definition roomAfter :: "room thrown_or \<Rightarrow> room" where
  "roomAfter res = (case res of Inl (e, r) \<Rightarrow> r | Inr r \<Rightarrow> r)"

text \<open>
  A seat with the given id, chips, bet and hole cards, and a room in the middle of a hand
  with the given seats, pot, current bet and seat on turn (minimum bet 10).
\<close>

definition seatOf :: "player_id \<Rightarrow> int \<Rightarrow> int \<Rightarrow> card list \<Rightarrow> player" where
  "seatOf i c b h =
     \<lparr>pid = i, username = i, chips = c, bet = b, pstatus = ''active'', hand = h,
      folded = False, allIn = False, connected = True\<rparr>"

definition tableOf :: "player list \<Rightarrow> int \<Rightarrow> int \<Rightarrow> player_id \<Rightarrow> room" where
  "tableOf ps p cb turn =
     (createInitialGameState ''room'' ''table'' ''P1'' 6 10 1000)
       \<lparr>players := ps, status := StatusPlaying, phase := Flop, pot := p, currentBet := cb,
        currentTurn := Some turn\<rparr>"

text \<open>
  Scenario 1 of the specification on the engine: seats P1, P2 and P3 join with 1000 chips
  each, a hand starts (the shuffle draws the index \<open>i\<close> at step \<open>i\<close>, so it swaps nothing),
  P1 and P2 fold in turn, the pot is awarded, and a second hand starts.
\<close>

definition scenarioRoom :: room where
  "scenarioRoom =
     foldl (\<lambda>r i. roomAfter (addPlayerToRoom r i i))
       (createInitialGameState ''room'' ''table'' ''P1'' 6 10 1000) [''P1'', ''P2'', ''P3'']"

definition firstHand :: room where
  "firstHand = roomAfter (startNewHand scenarioRoom (\<lambda>i. i))"

definition afterFolds :: room where
  "afterFolds =
     roomAfter (processPlayerAction
       (moveToNextPlayer (roomAfter (processPlayerAction firstHand ''P1'' ''fold'' 0)))
       ''P2'' ''fold'' 0)"

definition afterAward :: room where
  "afterAward = (case processShowdown afterFolds of Inl (e, r) \<Rightarrow> r | Inr (r, res) \<Rightarrow> r)"

definition secondHand :: room where
  "secondHand = roomAfter (startNewHand afterAward (\<lambda>i. i))"

text \<open>
  Scenario 3 of the specification at its showdown: P1 went all-in for its 50 chips, P2 and
  P3 started with 200 and committed 110 each, so the pot holds 270 and nobody folded. P1
  holds the best hand (aces), P2 the second (queens), P3 the third (tens).
  \<open>showdownOutcome\<close> reads the scores, the payments and the chip stacks off the result.
\<close>

definition sidePotRoom :: room where
  "sidePotRoom =
     (tableOf
        [(seatOf ''P1'' 0 0 [cardOf RA Spades, cardOf RA Hearts])\<lparr>allIn := True\<rparr>,
         seatOf ''P2'' 90 0 [cardOf RQ Spades, cardOf RQ Diamonds],
         seatOf ''P3'' 90 0 [cardOf R10 Spades, cardOf R10 Diamonds]]
        270 0 ''P2'')
       \<lparr>phase := Showdown,
        communityCards := [cardOf R2 Clubs, cardOf R7 Diamonds, cardOf R9 Hearts,
                           cardOf RJ Spades, cardOf RK Clubs]\<rparr>"

definition showdownOutcome ::
  "(room \<times> showdown_result) thrown_or \<Rightarrow> error + (player_id \<times> int) list \<times> (player_id \<times> int) list \<times> (player_id \<times> int) list" where
  "showdownOutcome res =
     (case res of
        Inl (e, r) \<Rightarrow> Inl e
      | Inr (r, SingleWinner w a) \<Rightarrow> Inr ([], [(w, a)], map (\<lambda>p. (pid p, chips p)) (players r))
      | Inr (r, ShowdownResult results paid) \<Rightarrow>
          Inr (map (\<lambda>x. (fst x, resultScore x)) results, paid,
               map (\<lambda>p. (pid p, chips p)) (players r)))"

text \<open>
  The room of the first hand with the given cards as its deck.
\<close>

definition leakRoom :: "card list \<Rightarrow> room" where
  "leakRoom d = firstHand\<lparr>deck := d\<rparr>"

text \<open>
  The action names of the \<^verbatim>\<open>switch\<close> in \<^verbatim>\<open>processPlayerAction\<close>.
\<close>

definition knownActions :: "string list" where
  "knownActions = [''fold'', ''check'', ''call'', ''bet'', ''raise'', ''allin'']"

text \<open>
  P1 on turn with 50 chips and nothing committed, facing a bet of 10 (Scenario 6 of the
  specification has this shape); and P1 on turn with 40 chips and 10 committed, facing a
  bet of 100 that P2 made and P3 called.
\<close>

definition shortStackRoom :: room where
  "shortStackRoom = tableOf [seatOf ''P1'' 50 0 [], seatOf ''P2'' 500 10 []] 10 10 ''P1''"

definition callForLessRoom :: room where
  "callForLessRoom =
     (tableOf [seatOf ''P1'' 40 10 [], seatOf ''P2'' 500 100 [], seatOf ''P3'' 500 100 []]
        210 100 ''P1'')\<lparr>lastRaiser := Some ''P2'', playersActedThisRound := [''P2'', ''P3'']\<rparr>"


text \<open>
  P1 on turn with 50 chips before anybody has bet in the round, and P2 folded.
\<close>

definition openingRoom :: room where
  "openingRoom =
     tableOf [seatOf ''P1'' 50 0 [], (seatOf ''P2'' 500 0 [])\<lparr>folded := True\<rparr>] 0 0 ''P1''"

text \<open>
  P1 on turn with no chips and 10 committed, facing a bet of 100.
\<close>

definition emptyStackRoom :: room where
  "emptyStackRoom = tableOf [seatOf ''P1'' 0 10 [], seatOf ''P2'' 500 100 []] 110 100 ''P1''"

section \<open>Events and the funding invariant\<close>

text \<open>
  The calls that mutate a room, as events, and the room each one leaves behind, whether
  it returns or throws.
\<close>

datatype event =
    StartNewHand "nat \<Rightarrow> nat"
  | PlayerAction player_id string int
  | MoveToNextPlayer
  | MoveToNextPhase
  | ProcessShowdown
  | AddPlayer player_id string
  | RemovePlayer player_id

fun applyEvent :: "room \<Rightarrow> event \<Rightarrow> room" where
  "applyEvent r (StartNewHand pick) = roomAfter (startNewHand r pick)"
| "applyEvent r (PlayerAction playerId action amount) =
     roomAfter (processPlayerAction r playerId action amount)"
| "applyEvent r MoveToNextPlayer = moveToNextPlayer r"
| "applyEvent r MoveToNextPhase = roomAfter (map_sum id fst (moveToNextPhase r))"
| "applyEvent r ProcessShowdown = roomAfter (map_sum id fst (processShowdown r))"
| "applyEvent r (AddPlayer i uname) = roomAfter (addPlayerToRoom r i uname)"
| "applyEvent r (RemovePlayer i) = roomAfter (removePlayerFromRoom r i)"


definition funded :: "int \<Rightarrow> int \<Rightarrow> player \<Rightarrow> bool" where
  "funded cb mb p \<longleftrightarrow> 0 \<le> chips p \<and> bet p \<le> cb + mb"


text \<open>
  A play that leaves a seat without chips on turn: P1 goes all-in before the flop, P2
  calls with its whole stack and loses the showdown, P3 folds. The next hand is dealt to
  all three seats, P1 calls and the turn passes to P2.
\<close>

definition bustedSeatEvents :: "event list" where
  "bustedSeatEvents =
     [AddPlayer ''P1'' ''P1'', AddPlayer ''P2'' ''P2'', AddPlayer ''P3'' ''P3'',
      StartNewHand (\<lambda>i. i),
      PlayerAction ''P1'' ''allin'' 0, MoveToNextPlayer,
      PlayerAction ''P2'' ''call'' 0, MoveToNextPlayer,
      PlayerAction ''P3'' ''fold'' 0,
      MoveToNextPhase, MoveToNextPhase, MoveToNextPhase, MoveToNextPhase,
      StartNewHand (\<lambda>i. i),
      PlayerAction ''P1'' ''call'' 0, MoveToNextPlayer]"

definition bustedSeatRoom :: room where
  "bustedSeatRoom =
     foldl applyEvent (createInitialGameState ''room'' ''table'' ''P1'' 6 10 1000)
       bustedSeatEvents"







section \<open>Properties of the hand evaluation\<close>

subsection \<open>Grouping\<close>

lemma insertGroup_keys: "fst ` set (insertGroup k v g) = insert k (fst ` set g)"
proof (induction g)
  case Nil
  show ?case by simp
next
  case (Cons e g)
  obtain k0 vs0 where e: "e = (k0, vs0)" by (cases e)
  show ?case
  proof (cases "k = k0")
    case True
    then show ?thesis using e by simp
  next
    case False
    then show ?thesis using e Cons by (simp add: insert_commute)
  qed
qed

lemma insertGroup_distinct:
  "distinct (map fst g) \<Longrightarrow> distinct (map fst (insertGroup k v g))"
proof (induction g)
  case Nil
  then show ?case by simp
next
  case (Cons e g)
  obtain k' vs where e: "e = (k', vs)" by (cases e)
  show ?case
  proof (cases "k = k'")
    case True
    with Cons e show ?thesis by simp
  next
    case False
    have "k' \<notin> fst ` set (insertGroup k v g)"
      using Cons.prems False e by (simp add: insertGroup_keys)
    with Cons e False show ?thesis by simp
  qed
qed

lemma insertGroup_entry:
  "distinct (map fst g) \<Longrightarrow> (k', vs') \<in> set (insertGroup k v g) \<Longrightarrow>
     (k' \<noteq> k \<and> (k', vs') \<in> set g)
     \<or> (k' = k \<and> (vs' = [v] \<and> k \<notin> fst ` set g \<or> (\<exists>vs. (k, vs) \<in> set g \<and> vs' = vs @ [v])))"
proof (induction g)
  case Nil
  then show ?case by simp
next
  case (Cons e g)
  obtain k0 vs0 where e: "e = (k0, vs0)" by (cases e)
  from Cons.prems e have fresh: "k0 \<notin> fst ` set g" and d: "distinct (map fst g)" by auto
  show ?case
  proof (cases "k = k0")
    case True
    with Cons.prems e have "(k', vs') = (k0, vs0 @ [v]) \<or> (k', vs') \<in> set g" by simp
    then show ?thesis
    proof
      assume "(k', vs') = (k0, vs0 @ [v])"
      then show ?thesis using True e by auto
    next
      assume m: "(k', vs') \<in> set g"
      then have "k' \<noteq> k0" using fresh by (metis fst_conv image_eqI)
      then show ?thesis using m True by simp
    qed
  next
    case False
    with Cons.prems e have "(k', vs') = (k0, vs0) \<or> (k', vs') \<in> set (insertGroup k v g)" by simp
    then show ?thesis
    proof
      assume "(k', vs') = (k0, vs0)"
      then show ?thesis using False e by auto
    next
      assume "(k', vs') \<in> set (insertGroup k v g)"
      from Cons.IH [OF d this] show ?thesis using False e by auto
    qed
  qed
qed

lemma grouped_step:
  assumes "grouped f g xs"
  shows "grouped f (insertGroup (f c) c g) (xs @ [c])"
proof -
  from assms have d: "distinct (map fst g)" and ks: "fst ` set g = f ` set xs"
    and es: "\<And>k vs. (k, vs) \<in> set g \<Longrightarrow> vs = filter (\<lambda>x. f x = k) xs"
    by (auto simp: grouped_def)
  have "distinct (map fst (insertGroup (f c) c g))"
    using d by (rule insertGroup_distinct)
  moreover have "fst ` set (insertGroup (f c) c g) = f ` set (xs @ [c])"
    using ks by (simp add: insertGroup_keys)
  moreover have "vs' = filter (\<lambda>x. f x = k') (xs @ [c])"
    if "(k', vs') \<in> set (insertGroup (f c) c g)" for k' vs'
  proof -
    from insertGroup_entry [OF d that]
    consider (other) "k' \<noteq> f c" "(k', vs') \<in> set g"
      | (fresh) "k' = f c" "vs' = [c]" "f c \<notin> fst ` set g"
      | (old) vs where "k' = f c" "(f c, vs) \<in> set g" "vs' = vs @ [c]"
      by blast
    then show ?thesis
    proof cases
      case other
      then show ?thesis using es by auto
    next
      case fresh
      then have "f c \<notin> f ` set xs" using ks by simp
      then have "\<forall>x \<in> set xs. f x \<noteq> f c" by (metis image_eqI)
      then have "filter (\<lambda>x. f x = f c) xs = []"
        by (simp add: filter_empty_conv)
      with fresh show ?thesis by simp
    next
      case old
      then show ?thesis using es by auto
    qed
  qed
  ultimately show ?thesis unfolding grouped_def by blast
qed

lemma grouped_groupByKey: "grouped f (groupByKey f xs) xs"
proof (induction xs rule: rev_induct)
  case Nil
  show ?case by (simp add: groupByKey_def grouped_def)
next
  case (snoc c xs)
  have "groupByKey f (xs @ [c]) = insertGroup (f c) c (groupByKey f xs)"
    by (simp add: groupByKey_def)
  with grouped_step [OF snoc] show ?case by simp
qed

lemma group_is_filter:
  "(k, vs) \<in> set (groupByKey f xs) \<Longrightarrow> vs = filter (\<lambda>x. f x = k) xs \<and> vs \<noteq> []"
proof -
  assume a: "(k, vs) \<in> set (groupByKey f xs)"
  have g: "grouped f (groupByKey f xs) xs" by (rule grouped_groupByKey)
  from g a have v: "vs = filter (\<lambda>x. f x = k) xs" by (auto simp: grouped_def)
  from g a have "k \<in> f ` set xs" unfolding grouped_def by (metis fst_conv image_eqI)
  then have "filter (\<lambda>x. f x = k) xs \<noteq> []" by (auto simp: filter_empty_conv)
  with v show ?thesis by simp
qed

lemma group_of_key:
  "x \<in> set xs \<Longrightarrow> (f x, filter (\<lambda>y. f y = f x) xs) \<in> set (groupByKey f xs)"
proof -
  assume a: "x \<in> set xs"
  have g: "grouped f (groupByKey f xs) xs" by (rule grouped_groupByKey)
  then have "f x \<in> fst ` set (groupByKey f xs)" using a by (auto simp: grouped_def)
  then obtain vs where m: "(f x, vs) \<in> set (groupByKey f xs)" by auto
  with g have "vs = filter (\<lambda>y. f y = f x) xs" by (auto simp: grouped_def)
  with m show ?thesis by simp
qed

lemma set_rankEntries: "set (rankEntries g) = set g"
  by (auto simp: rankEntries_def)

lemma length_rankEntries: "length (rankEntries g) = length g"
proof -
  have "length (filter (\<lambda>e. isIndexKey (fst e)) g) + length (filter (\<lambda>e. \<not> isIndexKey (fst e)) g) = length g"
    by (rule sum_length_filter_compl)
  then show ?thesis by (simp add: rankEntries_def)
qed

lemma find_rank_group:
  assumes "find P (rankEntries (groupByRank cs)) = Some (r, g)"
  shows "g = filter (\<lambda>c. rank c = r) cs \<and> g \<noteq> [] \<and> P (r, g)"
proof -
  from assms have "(r, g) \<in> set (rankEntries (groupByRank cs))" and p: "P (r, g)"
    by (auto simp: find_Some_iff in_set_conv_nth)
  then have "(r, g) \<in> set (groupByKey rank cs)"
    by (simp add: set_rankEntries groupByRank_def)
  then have "g = filter (\<lambda>c. rank c = r) cs \<and> g \<noteq> []" by (rule group_is_filter)
  with p show ?thesis by blast
qed

lemma headValue_nonempty: "g \<noteq> [] \<Longrightarrow> headValue g = Inr (cvalue (hd g))"
  by (cases g) (simp_all add: headValue_def)

subsection \<open>No check throws\<close>

lemma checkPair_returns: "\<exists>v. checkPair cs = Inr v"
proof (cases "find (\<lambda>e. 2 \<le> length (snd e)) (rankEntries (groupByRank cs))")
  case None
  then show ?thesis by (simp add: checkPair_def)
next
  case (Some e)
  obtain r g where e: "e = (r, g)" by (cases e)
  with Some have "g \<noteq> []" using find_rank_group by blast
  then show ?thesis using Some e by (simp add: checkPair_def headValue_nonempty Let_def)
qed

lemma checkThreeOfAKind_returns: "\<exists>v. checkThreeOfAKind cs = Inr v"
proof (cases "find (\<lambda>e. length (snd e) = 3) (rankEntries (groupByRank cs))")
  case None
  then show ?thesis by (simp add: checkThreeOfAKind_def)
next
  case (Some e)
  obtain r g where e: "e = (r, g)" by (cases e)
  with Some have "g \<noteq> []" using find_rank_group by blast
  then show ?thesis using Some e by (simp add: checkThreeOfAKind_def headValue_nonempty Let_def)
qed

lemma checkFourOfAKind_returns: "\<exists>v. checkFourOfAKind cs = Inr v"
proof (cases "find (\<lambda>e. length (snd e) = 4) (rankEntries (groupByRank cs))")
  case None
  then show ?thesis by (simp add: checkFourOfAKind_def)
next
  case (Some e)
  obtain r g where e: "e = (r, g)" by (cases e)
  with Some have "g \<noteq> []" using find_rank_group by blast
  then show ?thesis using Some e by (simp add: checkFourOfAKind_def headValue_nonempty)
qed

lemma checkFullHouse_returns: "\<exists>v. checkFullHouse cs = Inr v"
proof (cases "find (\<lambda>e. length (snd e) = 3) (rankEntries (groupByRank cs))")
  case None
  then show ?thesis by (simp add: checkFullHouse_def)
next
  case three: (Some e)
  obtain tr tg where e: "e = (tr, tg)" by (cases e)
  with three have tg: "tg \<noteq> []" using find_rank_group by blast
  show ?thesis
  proof (cases "find (\<lambda>e. 2 \<le> length (snd e) \<and> Some (fst e) \<noteq> Some tr) (rankEntries (groupByRank cs))")
    case None
    then show ?thesis using three e by (simp add: checkFullHouse_def)
  next
    case (Some e2)
    obtain pr pg where e2: "e2 = (pr, pg)" by (cases e2)
    with Some have "pg \<noteq> []" using find_rank_group by blast
    then show ?thesis using three e Some e2 tg
      by (simp add: checkFullHouse_def headValue_nonempty)
  qed
qed

lemma checkTwoPair_returns: "\<exists>v. checkTwoPair cs = Inr v"
proof -
  define pairs where "pairs = filter (\<lambda>e. 2 \<le> length (snd e)) (rankEntries (groupByRank cs))"
  show ?thesis
  proof (cases "length pairs < 2")
    case True
    then show ?thesis by (simp add: checkTwoPair_def pairs_def)
  next
    case False
    have ne: "[] \<notin> set (map snd pairs)" by (auto simp: pairs_def)
    have "length (sort_key (\<lambda>e. - cvalue (hd (snd e))) pairs) = length pairs" by simp
    with False obtain a b rest where s: "sort_key (\<lambda>e. - cvalue (hd (snd e))) pairs = a # b # rest"
      by (cases "sort_key (\<lambda>e. - cvalue (hd (snd e))) pairs" rule: list.exhaust;
          cases "tl (sort_key (\<lambda>e. - cvalue (hd (snd e))) pairs)") (auto simp del: length_sort)
    obtain hr hg lr lg where ab: "a = (hr, hg)" "b = (lr, lg)" by (cases a, cases b) auto
    show ?thesis using False ne s ab
      unfolding checkTwoPair_def pairs_def [symmetric] Let_def by simp
  qed
qed

lemma set_uniq: "set (uniq xs) = set xs"
  by (induction xs) auto

lemma set_uniqueValues: "set (uniqueValues cs) = cvalue ` set cs"
  by (simp add: uniqueValues_def set_uniq)

lemma regularStraight_Some:
  "regularStraight vs = Some sq \<Longrightarrow> length sq = 5 \<and> isConsecutive sq \<and> set sq \<subseteq> set vs"
proof (induction vs)
  case Nil
  then show ?case by simp
next
  case (Cons v vs)
  show ?case
  proof (cases "length (v # vs) < 5")
    case True
    with Cons.prems show ?thesis by simp
  next
    case long: False
    show ?thesis
    proof (cases "isConsecutive (take 5 (v # vs))")
      case True
      with long Cons.prems have sq: "sq = take 5 (v # vs)" by simp
      have "set (take 5 (v # vs)) \<subseteq> set (v # vs)" by (rule set_take_subset)
      with sq True long show ?thesis by simp
    next
      case False
      with long Cons.prems have "regularStraight vs = Some sq" by simp
      from Cons.IH [OF this] show ?thesis by auto
    qed
  qed
qed

lemma consecutive_five:
  "length sq = 5 \<Longrightarrow> isConsecutive sq \<Longrightarrow> \<exists>t. sq = [t, t - 1, t - 2, t - 3, t - 4]"
proof -
  assume l: "length sq = 5" and c: "isConsecutive sq"
  from l obtain a b c' d e where sq: "sq = [a, b, c', d, e]"
    by (auto simp: length_Suc_conv numeral_eq_Suc)
  with c show ?thesis by auto
qed

lemma find_by_value:
  "v \<in> cvalue ` set cs \<Longrightarrow> \<exists>c. find (\<lambda>c. cvalue c = v) cs = Some c \<and> cvalue c = v"
  by (induction cs) auto

lemma checkStraight_Some:
  assumes "checkStraight cs = Some st"
  shows "name st = ''Straight'' \<and> (\<exists>c rest. cards st = Some c # rest \<and> score st = 4000 + cvalue c)"
proof (cases "regularStraight (uniqueValues cs)")
  case None
  with assms have w: "5 \<in> set (uniqueValues cs)"
    and st: "st = \<lparr>name = ''Straight'', score = 4000 + 5,
                  cards = map (\<lambda>v. find (\<lambda>c. cvalue c = v) cs) [5, 4, 3, 2, 14]\<rparr>"
    by (auto simp: checkStraight_def Let_def split: if_splits)
  from w have "5 \<in> cvalue ` set cs" by (simp add: set_uniqueValues)
  then obtain c where "find (\<lambda>c. cvalue c = 5) cs = Some c" "cvalue c = 5"
    using find_by_value by blast
  with st show ?thesis by simp
next
  case (Some sq)
  with assms have st: "st = \<lparr>name = ''Straight'', score = 4000 + hd sq,
                  cards = map (\<lambda>v. find (\<lambda>c. cvalue c = v) cs) sq\<rparr>"
    by (simp add: checkStraight_def Let_def)
  from regularStraight_Some [OF Some] have l: "length sq = 5" and sub: "set sq \<subseteq> set (uniqueValues cs)"
    by auto
  from l obtain a rest where sq: "sq = a # rest" by (cases sq) auto
  with sub have "a \<in> cvalue ` set cs" by (simp add: set_uniqueValues)
  then obtain c where "find (\<lambda>c. cvalue c = a) cs = Some c" "cvalue c = a"
    using find_by_value by blast
  with st sq show ?thesis by simp
qed

lemma checkStraightFlush_returns: "\<exists>v. checkStraightFlush cs = Inr v"
proof (cases "flushCards cs")
  case None
  then show ?thesis by (simp add: checkStraightFlush_def)
next
  case (Some fc)
  show ?thesis
  proof (cases "checkStraight fc")
    case None
    with Some show ?thesis by (simp add: checkStraightFlush_def)
  next
    case st: (Some straight)
    from checkStraight_Some [OF st] obtain c rest where "cards straight = Some c # rest" by blast
    with Some st show ?thesis by (simp add: checkStraightFlush_def headValueU_def)
  qed
qed

lemma checkStraightFlush_Some:
  "checkStraightFlush cs = Inr (Some sf) \<Longrightarrow>
     name sf = ''Straight Flush'' \<and> (\<exists>c rest. cards sf = Some c # rest)"
proof -
  assume a: "checkStraightFlush cs = Inr (Some sf)"
  then obtain fc where fc: "flushCards cs = Some fc"
    by (cases "flushCards cs") (simp_all add: checkStraightFlush_def)
  with a obtain straight where st: "checkStraight fc = Some straight"
    by (cases "checkStraight fc") (simp_all add: checkStraightFlush_def)
  from checkStraight_Some [OF st] obtain c rest where c: "cards straight = Some c # rest" by blast
  with a fc st have "sf = \<lparr>name = ''Straight Flush'', score = 8000 + cvalue c, cards = cards straight\<rparr>"
    by (simp add: checkStraightFlush_def headValueU_def)
  with c show ?thesis by simp
qed

lemma checkRoyalFlush_returns: "\<exists>v. checkRoyalFlush cs = Inr v"
proof -
  from checkStraightFlush_returns obtain v where v: "checkStraightFlush cs = Inr v" by blast
  show ?thesis
  proof (cases v)
    case None
    with v show ?thesis by (simp add: checkRoyalFlush_def)
  next
    case (Some sf)
    with v checkStraightFlush_Some obtain c rest where "cards sf = Some c # rest" by blast
    with v Some show ?thesis by (simp add: checkRoyalFlush_def headValueU_def)
  qed
qed

lemma orElse_returns:
  "\<exists>v. a = Inr v \<Longrightarrow> \<exists>w. b = Inr w \<Longrightarrow> \<exists>u. orElse a b = Inr u"
  by (auto simp: orElse_def split: option.splits)

lemma evaluateSorted_returns: "\<exists>v. evaluateSorted cs = Inr v"
proof -
  have "\<exists>u. orElse (checkRoyalFlush cs)
            (orElse (checkStraightFlush cs)
            (orElse (checkFourOfAKind cs)
            (orElse (checkFullHouse cs)
            (orElse (Inr (checkFlush cs))
            (orElse (Inr (checkStraight cs))
            (orElse (checkThreeOfAKind cs)
            (orElse (checkTwoPair cs)
                    (checkPair cs)))))))) = Inr u"
    by (intro orElse_returns checkRoyalFlush_returns checkStraightFlush_returns
        checkFourOfAKind_returns checkFullHouse_returns checkThreeOfAKind_returns
        checkTwoPair_returns checkPair_returns) simp_all
  then show ?thesis by (auto simp: evaluateSorted_def split: option.splits)
qed

lemma checkPair_name: "checkPair cs = Inr (Some v) \<Longrightarrow> name v = ''Pair''"
  by (auto simp: checkPair_def Let_def split: option.splits sum.splits prod.splits)

lemma checkThreeOfAKind_name: "checkThreeOfAKind cs = Inr (Some v) \<Longrightarrow> name v = ''Three of a Kind''"
  by (auto simp: checkThreeOfAKind_def Let_def split: option.splits sum.splits prod.splits)

lemma checkFourOfAKind_name: "checkFourOfAKind cs = Inr (Some v) \<Longrightarrow> name v = ''Four of a Kind''"
  by (auto simp: checkFourOfAKind_def Let_def split: option.splits sum.splits prod.splits)

lemma checkFullHouse_name: "checkFullHouse cs = Inr (Some v) \<Longrightarrow> name v = ''Full House''"
  by (auto simp: checkFullHouse_def Let_def split: option.splits sum.splits prod.splits)

lemma checkTwoPair_name: "checkTwoPair cs = Inr (Some v) \<Longrightarrow> name v = ''Two Pair''"
  by (auto simp: checkTwoPair_def Let_def split: option.splits sum.splits prod.splits list.splits if_splits)

lemma checkFlush_name: "checkFlush cs = Some v \<Longrightarrow> name v = ''Flush''"
  by (auto simp: checkFlush_def split: option.splits)

lemma checkRoyalFlush_name: "checkRoyalFlush cs = Inr (Some v) \<Longrightarrow> name v = ''Royal Flush''"
  by (auto simp: checkRoyalFlush_def split: option.splits sum.splits if_splits)

lemma checkHighCard_name: "name (checkHighCard cs) = ''High Card''"
  by (simp add: checkHighCard_def Let_def)

lemma evaluateSorted_cases:
  assumes "evaluateSorted cs = Inr v"
  shows "checkRoyalFlush cs = Inr (Some v) \<or> checkStraightFlush cs = Inr (Some v)
       \<or> checkFourOfAKind cs = Inr (Some v) \<or> checkFullHouse cs = Inr (Some v)
       \<or> checkFlush cs = Some v \<or> checkStraight cs = Some v
       \<or> checkThreeOfAKind cs = Inr (Some v) \<or> checkTwoPair cs = Inr (Some v)
       \<or> checkPair cs = Inr (Some v) \<or> v = checkHighCard cs"
  using assms unfolding evaluateSorted_def orElse_def
  by (auto split: sum.splits option.splits)

lemma evaluateSorted_name: "evaluateSorted cs = Inr v \<Longrightarrow> name v \<in> set categoryNames"
proof -
  assume a: "evaluateSorted cs = Inr v"
  from evaluateSorted_cases [OF a] show ?thesis
    using checkRoyalFlush_name [of cs v] checkStraightFlush_Some [of cs v]
      checkFourOfAKind_name [of cs v] checkFullHouse_name [of cs v] checkFlush_name [of cs v]
      checkStraight_Some [of cs v] checkThreeOfAKind_name [of cs v] checkTwoPair_name [of cs v]
      checkPair_name [of cs v] checkHighCard_name [of cs]
    by (auto simp: categoryNames_def)
qed

lemma evaluateSorted_straight:
  assumes "evaluateSorted cs = Inr v" and "name v = ''Straight''"
  shows "checkStraight cs = Some v"
  using evaluateSorted_cases [OF assms(1)] assms(2)
    checkRoyalFlush_name [of cs v] checkStraightFlush_Some [of cs v]
    checkFourOfAKind_name [of cs v] checkFullHouse_name [of cs v] checkFlush_name [of cs v]
    checkThreeOfAKind_name [of cs v] checkTwoPair_name [of cs v]
    checkPair_name [of cs v] checkHighCard_name [of cs]
  by auto

lemma straight_score_is_top_card:
  assumes "evaluateHand hole board = Inr v" and "name v = ''Straight''"
  shows "\<exists>c rest. cards v = Some c # rest \<and> score v = 4000 + cvalue c"
proof (cases "length (hole @ board) < 5")
  case True
  with assms(1) have "v = \<lparr>name = ''Incomplete Hand'', score = 0, cards = []\<rparr>"
    by (simp add: evaluateHand_def)
  with assms(2) show ?thesis by simp
next
  case False
  with assms(1) have "evaluateSorted (sort_key (\<lambda>c. - cvalue c) (map withValue (hole @ board))) = Inr v"
    by (simp add: evaluateHand_def Let_def)
  from evaluateSorted_straight [OF this assms(2)] checkStraight_Some show ?thesis by blast
qed

subsection \<open>Counting cards by rank\<close>


lemma length_ge_card_image: "card (f ` set xs) \<le> length xs"
  by (meson card_image_le card_length le_trans List.finite_set)

lemma wheel_ranks_card: "card {RA, R2, R3, R4, R5} = 5"
  by simp

text \<open>Cards of other ranks than \<open>S\<close> are at least as many as the ranks present outside \<open>S\<close>.\<close>

lemma others_count:
  assumes "W \<subseteq> rank ` set cs" and "finite W"
  shows "card (W - S) \<le> length (filter (\<lambda>c. rank c \<notin> S) cs)"
proof -
  have "W - S \<subseteq> rank ` set (filter (\<lambda>c. rank c \<notin> S) cs)"
    using assms(1) by auto
  then have "card (W - S) \<le> card (rank ` set (filter (\<lambda>c. rank c \<notin> S) cs))"
    by (intro card_mono) auto
  also have "\<dots> \<le> length (filter (\<lambda>c. rank c \<notin> S) cs)"
    by (rule length_ge_card_image)
  finally show ?thesis .
qed

lemma one_rank_count:
  fixes cs :: "ecard list"
  assumes w: "{RA, R2, R3, R4, R5} \<subseteq> rank ` set cs" and l: "length cs \<le> 7"
  shows "length (filter (\<lambda>c. rank c = r) cs) \<le> 3"
proof -
  have "card ({RA, R2, R3, R4, R5} - {r}) \<le> length (filter (\<lambda>c. rank c \<notin> {r}) cs)"
    using others_count [OF w, of "{r}"] by simp
  moreover have "4 \<le> card ({RA, R2, R3, R4, R5} - {r})"
    by (cases r) simp_all
  moreover have "length (filter (\<lambda>c. rank c = r) cs) + length (filter (\<lambda>c. rank c \<notin> {r}) cs) = length cs"
    using sum_length_filter_compl [of "\<lambda>c. rank c = r" cs] by simp
  ultimately show ?thesis using l by linarith
qed

lemma two_ranks_count:
  fixes cs :: "ecard list"
  assumes w: "{RA, R2, R3, R4, R5} \<subseteq> rank ` set cs" and l: "length cs \<le> 7" and ne: "r \<noteq> q"
  shows "length (filter (\<lambda>c. rank c = r) cs) + length (filter (\<lambda>c. rank c = q) cs) \<le> 4"
proof -
  have "card ({RA, R2, R3, R4, R5} - {r, q}) \<le> length (filter (\<lambda>c. rank c \<notin> {r, q}) cs)"
    using others_count [OF w, of "{r, q}"] by simp
  moreover have "5 - card {r, q} \<le> card ({RA, R2, R3, R4, R5} - {r, q})"
    using diff_card_le_card_Diff [of "{r, q}" "{RA, R2, R3, R4, R5}"] by simp
  moreover have "card {r, q} = 2" using ne by simp
  moreover have "length (filter (\<lambda>c. rank c = r) cs) + length (filter (\<lambda>c. rank c = q) cs)
      + length (filter (\<lambda>c. rank c \<notin> {r, q}) cs) = length cs"
    using ne by (induction cs) auto
  ultimately show ?thesis using l by linarith
qed


lemma find_SomeD: "find P xs = Some x \<Longrightarrow> x \<in> set xs \<and> P x"
  by (auto simp: find_Some_iff)

lemma getRankValue_ge_2: "2 \<le> getRankValue r"
  by (cases r) simp_all

lemma no_flush_cards:
  assumes "\<And>s. length (filter (\<lambda>c. suit c = s) sc) < 5"
  shows "flushCards sc = None"
proof (cases "find (\<lambda>e. 5 \<le> length (snd e)) (groupBySuit sc)")
  case None
  then show ?thesis by (simp add: flushCards_def)
next
  case (Some e)
  obtain s g where e: "e = (s, g)" by (cases e)
  from find_SomeD [OF Some] e have "(s, g) \<in> set (groupByKey suit sc)" and "5 \<le> length g"
    by (simp_all add: groupBySuit_def)
  with group_is_filter [of s g suit sc] assms [of s] show ?thesis by simp
qed

lemma wheel_no_regular_straight:
  fixes sc :: "ecard list"
  assumes vals: "\<And>c. c \<in> set sc \<Longrightarrow> cvalue c = getRankValue (rank c)"
    and ns: "\<And>t. 6 \<le> t \<Longrightarrow> \<not> {t - 4, t - 3, t - 2, t - 1, t} \<subseteq> cvalue ` set sc"
  shows "regularStraight (uniqueValues sc) = None"
proof (cases "regularStraight (uniqueValues sc)")
  case None
  then show ?thesis .
next
  case (Some sq)
  from regularStraight_Some [OF Some] have l: "length sq = 5" and c: "isConsecutive sq"
    and sub: "set sq \<subseteq> cvalue ` set sc" by (auto simp: set_uniqueValues)
  from consecutive_five [OF l c] obtain t where sq: "sq = [t, t - 1, t - 2, t - 3, t - 4]" by blast
  with sub have all: "{t - 4, t - 3, t - 2, t - 1, t} \<subseteq> cvalue ` set sc" by auto
  then obtain c where "c \<in> set sc" "cvalue c = t - 4" by auto
  with vals [of c] getRankValue_ge_2 [of "rank c"] have "6 \<le> t" by simp
  from ns [OF this] all show ?thesis by simp
qed

lemma wheel_sorted:
  fixes sc :: "ecard list"
  assumes w: "{RA, R2, R3, R4, R5} \<subseteq> rank ` set sc" and l: "length sc \<le> 7"
    and nf: "\<And>s. length (filter (\<lambda>c. suit c = s) sc) < 5"
    and vals: "\<And>c. c \<in> set sc \<Longrightarrow> cvalue c = getRankValue (rank c)"
    and ns: "\<And>t. 6 \<le> t \<Longrightarrow> \<not> {t - 4, t - 3, t - 2, t - 1, t} \<subseteq> cvalue ` set sc"
  shows "evaluateSorted sc =
     Inr \<lparr>name = ''Straight'', score = 4005,
          cards = map (\<lambda>v. find (\<lambda>c. cvalue c = v) sc) [5, 4, 3, 2, 14]\<rparr>"
proof -
  have fc: "flushCards sc = None" using nf by (rule no_flush_cards)
  then have sf: "checkStraightFlush sc = Inr None" by (simp add: checkStraightFlush_def)
  then have rf: "checkRoyalFlush sc = Inr None" by (simp add: checkRoyalFlush_def)
  have fl: "checkFlush sc = None" using fc by (simp add: checkFlush_def)
  have four: "checkFourOfAKind sc = Inr None"
  proof (cases "find (\<lambda>e. length (snd e) = 4) (rankEntries (groupByRank sc))")
    case None
    then show ?thesis by (simp add: checkFourOfAKind_def)
  next
    case (Some e)
    obtain r g where e: "e = (r, g)" by (cases e)
    from Some e have "find (\<lambda>e. length (snd e) = 4) (rankEntries (groupByRank sc)) = Some (r, g)"
      by simp
    from find_rank_group [OF this]
    have "length (filter (\<lambda>c. rank c = r) sc) = 4" by auto
    with one_rank_count [OF w l, of r] show ?thesis by simp
  qed
  have full: "checkFullHouse sc = Inr None"
  proof (cases "find (\<lambda>e. length (snd e) = 3) (rankEntries (groupByRank sc))")
    case None
    then show ?thesis by (simp add: checkFullHouse_def)
  next
    case three: (Some e)
    obtain tr tg where e: "e = (tr, tg)" by (cases e)
    from three e have "find (\<lambda>e. length (snd e) = 3) (rankEntries (groupByRank sc)) = Some (tr, tg)"
      by simp
    from find_rank_group [OF this]
    have tg: "length (filter (\<lambda>c. rank c = tr) sc) = 3" by auto
    show ?thesis
    proof (cases "find (\<lambda>e. 2 \<le> length (snd e) \<and> Some (fst e) \<noteq> Some tr) (rankEntries (groupByRank sc))")
      case None
      then show ?thesis using three e by (simp add: checkFullHouse_def)
    next
      case (Some e2)
      obtain pr pg where e2: "e2 = (pr, pg)" by (cases e2)
      from Some e2 have "find (\<lambda>e. 2 \<le> length (snd e) \<and> Some (fst e) \<noteq> Some tr)
          (rankEntries (groupByRank sc)) = Some (pr, pg)" by simp
      from find_rank_group [OF this]
      have pg: "2 \<le> length (filter (\<lambda>c. rank c = pr) sc)" "pr \<noteq> tr" by auto
      from two_ranks_count [OF w l, of tr pr] pg tg show ?thesis by simp
    qed
  qed
  have reg: "regularStraight (uniqueValues sc) = None"
    using vals ns by (rule wheel_no_regular_straight)
  have m: "getRankValue r \<in> set (uniqueValues sc)" if "r \<in> {RA, R2, R3, R4, R5}" for r
  proof -
    from that w have "r \<in> rank ` set sc" by blast
    then obtain c where "c \<in> set sc" "rank c = r" by (auto simp: image_iff)
    with vals [of c] have "getRankValue r = cvalue c" "c \<in> set sc" by simp_all
    then show ?thesis unfolding set_uniqueValues by (rule image_eqI)
  qed
  from m [of RA] m [of R5] m [of R4] m [of R3] m [of R2]
  have "14 \<in> set (uniqueValues sc) \<and> 5 \<in> set (uniqueValues sc) \<and> 4 \<in> set (uniqueValues sc)
      \<and> 3 \<in> set (uniqueValues sc) \<and> 2 \<in> set (uniqueValues sc)" by simp
  then have st: "checkStraight sc =
     Some \<lparr>name = ''Straight'', score = 4005,
           cards = map (\<lambda>v. find (\<lambda>c. cvalue c = v) sc) [5, 4, 3, 2, 14]\<rparr>"
    using reg by (simp add: checkStraight_def Let_def)
  show ?thesis by (simp add: evaluateSorted_def orElse_def rf sf fl four full st)
qed

lemma sorted_cards_facts:
  fixes cs :: "card list"
  defines "sc \<equiv> sort_key (\<lambda>c. - cvalue c) (map withValue cs)"
  shows "rank ` set sc = rank ` set cs"
    and "length sc = length cs"
    and "length (filter (\<lambda>c. suit c = s) sc) = length (filter (\<lambda>c. suit c = s) cs)"
    and "c \<in> set sc \<Longrightarrow> cvalue c = getRankValue (rank c)"
    and "cvalue ` set sc = getRankValue ` rank ` set cs"
proof -
  show "rank ` set sc = rank ` set cs"
    by (auto simp: sc_def withValue_def image_iff)
  show "length sc = length cs" by (simp add: sc_def)
  have "filter (\<lambda>c. suit c = s) (map withValue cs) = map withValue (filter (\<lambda>c. suit c = s) cs)"
    by (induction cs) (simp_all add: withValue_def)
  then show "length (filter (\<lambda>c. suit c = s) sc) = length (filter (\<lambda>c. suit c = s) cs)"
    by (simp add: sc_def filter_sort)
  show "c \<in> set sc \<Longrightarrow> cvalue c = getRankValue (rank c)"
    by (auto simp: sc_def withValue_def)
  show "cvalue ` set sc = getRankValue ` rank ` set cs"
    by (auto simp: sc_def withValue_def image_iff)
qed

subsection \<open>Every straight is recognised\<close>

lemma five_ranks_one:
  fixes cs :: "ecard list"
  assumes w: "W \<subseteq> rank ` set cs" and c: "card W = 5" and l: "length cs \<le> 7"
  shows "length (filter (\<lambda>c. rank c = r) cs) \<le> 3"
proof -
  from c have fin: "finite W" using card.infinite by fastforce
  have "card (W - {r}) \<le> length (filter (\<lambda>c. rank c \<notin> {r}) cs)"
    using others_count [OF w fin, of "{r}"] by simp
  moreover have "4 \<le> card (W - {r})"
    using diff_card_le_card_Diff [of "{r}" W] c by simp
  moreover have "length (filter (\<lambda>c. rank c = r) cs) + length (filter (\<lambda>c. rank c \<notin> {r}) cs) = length cs"
    using sum_length_filter_compl [of "\<lambda>c. rank c = r" cs] by simp
  ultimately show ?thesis using l by linarith
qed

lemma five_ranks_two:
  fixes cs :: "ecard list"
  assumes w: "W \<subseteq> rank ` set cs" and c: "card W = 5" and l: "length cs \<le> 7" and ne: "r \<noteq> q"
  shows "length (filter (\<lambda>c. rank c = r) cs) + length (filter (\<lambda>c. rank c = q) cs) \<le> 4"
proof -
  from c have fin: "finite W" using card.infinite by fastforce
  have "card (W - {r, q}) \<le> length (filter (\<lambda>c. rank c \<notin> {r, q}) cs)"
    using others_count [OF w fin, of "{r, q}"] by simp
  moreover have "5 - card {r, q} \<le> card (W - {r, q})"
    using diff_card_le_card_Diff [of "{r, q}" W] c by simp
  moreover have "card {r, q} = 2" using ne by simp
  moreover have "length (filter (\<lambda>c. rank c = r) cs) + length (filter (\<lambda>c. rank c = q) cs)
      + length (filter (\<lambda>c. rank c \<notin> {r, q}) cs) = length cs"
    using ne by (induction cs) auto
  ultimately show ?thesis using l by linarith
qed

lemma five_ranks_no_four:
  fixes sc :: "ecard list"
  assumes w: "W \<subseteq> rank ` set sc" and c: "card W = 5" and l: "length sc \<le> 7"
  shows "checkFourOfAKind sc = Inr None"
proof (cases "find (\<lambda>e. length (snd e) = 4) (rankEntries (groupByRank sc))")
  case None
  then show ?thesis by (simp add: checkFourOfAKind_def)
next
  case (Some e)
  obtain r g where e: "e = (r, g)" by (cases e)
  from Some e have "find (\<lambda>e. length (snd e) = 4) (rankEntries (groupByRank sc)) = Some (r, g)"
    by simp
  from find_rank_group [OF this]
  have "length (filter (\<lambda>c. rank c = r) sc) = 4" by auto
  with five_ranks_one [OF w c l, of r] show ?thesis by simp
qed

lemma five_ranks_no_full_house:
  fixes sc :: "ecard list"
  assumes w: "W \<subseteq> rank ` set sc" and c: "card W = 5" and l: "length sc \<le> 7"
  shows "checkFullHouse sc = Inr None"
proof (cases "find (\<lambda>e. length (snd e) = 3) (rankEntries (groupByRank sc))")
  case None
  then show ?thesis by (simp add: checkFullHouse_def)
next
  case three: (Some e)
  obtain tr tg where e: "e = (tr, tg)" by (cases e)
  from three e have "find (\<lambda>e. length (snd e) = 3) (rankEntries (groupByRank sc)) = Some (tr, tg)"
    by simp
  from find_rank_group [OF this]
  have tg: "length (filter (\<lambda>c. rank c = tr) sc) = 3" by auto
  show ?thesis
  proof (cases "find (\<lambda>e. 2 \<le> length (snd e) \<and> Some (fst e) \<noteq> Some tr) (rankEntries (groupByRank sc))")
    case None
    then show ?thesis using three e by (simp add: checkFullHouse_def)
  next
    case (Some e2)
    obtain pr pg where e2: "e2 = (pr, pg)" by (cases e2)
    from Some e2 have "find (\<lambda>e. 2 \<le> length (snd e) \<and> Some (fst e) \<noteq> Some tr)
        (rankEntries (groupByRank sc)) = Some (pr, pg)" by simp
    from find_rank_group [OF this]
    have pg: "2 \<le> length (filter (\<lambda>c. rank c = pr) sc)" "pr \<noteq> tr" by auto
    from five_ranks_two [OF w c l, of tr pr] pg tg show ?thesis by simp
  qed
qed

text \<open>The distinct values in descending order.\<close>

lemma distinct_uniq: "distinct (uniq xs)"
  by (induction xs) (auto simp: set_uniq)

lemma strictly_descending:
  fixes ys :: "int list"
  shows "sorted (map uminus ys) \<Longrightarrow> distinct ys \<Longrightarrow> sorted_wrt (\<lambda>a b. b < a) ys"
  by (induction ys) (auto simp: order_less_le)

lemma uniqueValues_descending: "sorted_wrt (\<lambda>a b. b < a) (uniqueValues cs)"
proof -
  have "sorted (map uminus (sort_key uminus (uniq (map cvalue cs))))" by (rule sorted_sort_key)
  moreover have "distinct (sort_key uminus (uniq (map cvalue cs)))"
    by (simp add: distinct_uniq)
  ultimately show ?thesis unfolding uniqueValues_def by (rule strictly_descending)
qed

lemma next_lower_is_second:
  fixes v :: int
  assumes s: "sorted_wrt (\<lambda>a b. b < a) (v # rest)" and m: "v - 1 \<in> set rest"
  shows "\<exists>rest'. rest = (v - 1) # rest'"
proof (cases rest)
  case Nil
  with m show ?thesis by simp
next
  case (Cons w rest')
  from s Cons have "w < v" by simp
  moreover have "v - 1 \<le> w"
  proof (cases "v - 1 = w")
    case True
    then show ?thesis by simp
  next
    case False
    with m Cons have "v - 1 \<in> set rest'" by simp
    with s Cons show ?thesis by auto
  qed
  ultimately have "w = v - 1" by simp
  with Cons show ?thesis by simp
qed

lemma five_descending_prefix:
  fixes t :: int
  assumes s: "sorted_wrt (\<lambda>a b. b < a) (t # rest)"
    and m: "{t - 4, t - 3, t - 2, t - 1} \<subseteq> set rest"
  shows "\<exists>rest'. t # rest = t # (t - 1) # (t - 2) # (t - 3) # (t - 4) # rest'"
proof -
  from next_lower_is_second [OF s] m obtain r1 where r1: "rest = (t - 1) # r1" by auto
  with s have s1: "sorted_wrt (\<lambda>a b. b < a) ((t - 1) # r1)" by simp
  from m r1 have m1: "{t - 4, t - 3, t - 2} \<subseteq> set r1" by auto
  from next_lower_is_second [OF s1] m1 obtain r2 where r2: "r1 = (t - 2) # r2" by auto
  with s1 have s2: "sorted_wrt (\<lambda>a b. b < a) ((t - 2) # r2)" by simp
  from m1 r2 have m2: "{t - 4, t - 3} \<subseteq> set r2" by auto
  from next_lower_is_second [OF s2] m2 obtain r3 where r3: "r2 = (t - 3) # r3" by auto
  with s2 have s3: "sorted_wrt (\<lambda>a b. b < a) ((t - 3) # r3)" by simp
  from m2 r3 have m3: "t - 4 \<in> set r3" by auto
  from next_lower_is_second [OF s3] m3 obtain r4 where r4: "r3 = (t - 4) # r4" by auto
  from r1 r2 r3 r4 show ?thesis by simp
qed

lemma regularStraight_finds_highest:
  fixes t :: int
  shows "sorted_wrt (\<lambda>a b. b < a) vs \<Longrightarrow> {t - 4, t - 3, t - 2, t - 1, t} \<subseteq> set vs \<Longrightarrow>
     \<exists>s. t \<le> s \<and> regularStraight vs = Some [s, s - 1, s - 2, s - 3, s - 4]"
proof (induction vs)
  case Nil
  then show ?case by simp
next
  case (Cons v vs)
  from Cons.prems(1) have sv: "sorted_wrt (\<lambda>a b. b < a) vs" and top: "\<And>x. x \<in> set vs \<Longrightarrow> x < v"
    by auto
  from Cons.prems(2) top have tv: "t \<le> v" by fastforce
  have "card {t - 4, t - 3, t - 2, t - 1, t} \<le> card (set (v # vs))"
    using Cons.prems(2) by (intro card_mono) auto
  also have "\<dots> \<le> length (v # vs)" by (rule card_length)
  finally have long: "\<not> length (v # vs) < 5" by simp
  show ?case
  proof (cases "isConsecutive (take 5 (v # vs))")
    case True
    have l5: "length (take 5 (v # vs)) = 5" using long by simp
    from consecutive_five [OF l5 True] obtain s where s: "take 5 (v # vs) = [s, s - 1, s - 2, s - 3, s - 4]"
      by blast
    then have "s = v" by simp
    with s True long tv show ?thesis by simp
  next
    case False
    have "v \<noteq> t"
    proof
      assume "v = t"
      with Cons.prems have "sorted_wrt (\<lambda>a b. b < a) (t # vs)" "{t - 4, t - 3, t - 2, t - 1} \<subseteq> set vs"
        by auto
      from five_descending_prefix [OF this] obtain rest' where
        "t # vs = t # (t - 1) # (t - 2) # (t - 3) # (t - 4) # rest'" by blast
      with \<open>v = t\<close> have "take 5 (v # vs) = [t, t - 1, t - 2, t - 3, t - 4]" by simp
      with False show False by simp
    qed
    with tv have "t < v" by simp
    with Cons.prems(2) have "{t - 4, t - 3, t - 2, t - 1, t} \<subseteq> set vs" by auto
    from Cons.IH [OF sv this] False long show ?thesis by simp
  qed
qed

lemma straight_sorted:
  fixes sc :: "ecard list"
  assumes w: "W \<subseteq> rank ` set sc" and c: "card W = 5"
    and run: "getRankValue ` W = {t - 4, t - 3, t - 2, t - 1, t}"
    and l: "length sc \<le> 7"
    and nf: "\<And>s. length (filter (\<lambda>c. suit c = s) sc) < 5"
    and vals: "\<And>c. c \<in> set sc \<Longrightarrow> cvalue c = getRankValue (rank c)"
    and top: "\<And>u. t < u \<Longrightarrow> \<not> {u - 4, u - 3, u - 2, u - 1, u} \<subseteq> cvalue ` set sc"
  shows "evaluateSorted sc =
     Inr \<lparr>name = ''Straight'', score = 4000 + t,
          cards = map (\<lambda>v. find (\<lambda>c. cvalue c = v) sc) [t, t - 1, t - 2, t - 3, t - 4]\<rparr>"
proof -
  have fc: "flushCards sc = None" using nf by (rule no_flush_cards)
  then have sf: "checkStraightFlush sc = Inr None" by (simp add: checkStraightFlush_def)
  then have rf: "checkRoyalFlush sc = Inr None" by (simp add: checkRoyalFlush_def)
  have fl: "checkFlush sc = None" using fc by (simp add: checkFlush_def)
  have four: "checkFourOfAKind sc = Inr None" using w c l by (rule five_ranks_no_four)
  have full: "checkFullHouse sc = Inr None" using w c l by (rule five_ranks_no_full_house)
  have "getRankValue ` W \<subseteq> cvalue ` set sc"
  proof
    fix x assume "x \<in> getRankValue ` W"
    then obtain r where r: "r \<in> W" "x = getRankValue r" by auto
    with w have "r \<in> rank ` set sc" by blast
    then obtain k where k: "k \<in> set sc" "rank k = r" by (auto simp: image_iff)
    with vals [of k] r have "x = cvalue k" by simp
    with k show "x \<in> cvalue ` set sc" by (rule_tac image_eqI)
  qed
  with run have present: "{t - 4, t - 3, t - 2, t - 1, t} \<subseteq> set (uniqueValues sc)"
    by (simp add: set_uniqueValues)
  from regularStraight_finds_highest [OF uniqueValues_descending present]
  obtain s where s: "t \<le> s" "regularStraight (uniqueValues sc) = Some [s, s - 1, s - 2, s - 3, s - 4]"
    by blast
  from regularStraight_Some [OF s(2)] have "{s - 4, s - 3, s - 2, s - 1, s} \<subseteq> cvalue ` set sc"
    by (auto simp: set_uniqueValues)
  with top [of s] s(1) have "s = t" by force
  with s(2) have st: "checkStraight sc =
     Some \<lparr>name = ''Straight'', score = 4000 + t,
           cards = map (\<lambda>v. find (\<lambda>c. cvalue c = v) sc) [t, t - 1, t - 2, t - 3, t - 4]\<rparr>"
    by (simp add: checkStraight_def Let_def)
  show ?thesis by (simp add: evaluateSorted_def orElse_def rf sf fl four full st)
qed

lemma getRankValue_le_14: "getRankValue r \<le> 14"
  by (cases r) simp_all

text \<open>
  A hand of five to seven cards that holds five consecutive ranks topped by the value
  \<open>t\<close>, with no suit held five times and no five consecutive values topped higher.
\<close>

lemma straight_hand_is_recognised:
  fixes hole board :: "card list"
  assumes len: "5 \<le> length (hole @ board)" "length (hole @ board) \<le> 7"
    and w: "W \<subseteq> rank ` set (hole @ board)" and c: "card W = 5"
    and run: "getRankValue ` W = {t - 4, t - 3, t - 2, t - 1, t}"
    and no_flush: "\<And>s. length (filter (\<lambda>c. suit c = s) (hole @ board)) < 5"
    and top: "\<And>u. t < u \<Longrightarrow>
        \<not> {u - 4, u - 3, u - 2, u - 1, u} \<subseteq> getRankValue ` rank ` set (hole @ board)"
  shows "\<exists>v. evaluateHand hole board = Inr v \<and> name v = ''Straight'' \<and> score v = 4000 + t"
proof -
  define sc where "sc = sort_key (\<lambda>c. - cvalue c) (map withValue (hole @ board))"
  note f = sorted_cards_facts [where cs = "hole @ board", folded sc_def]
  have "evaluateSorted sc =
     Inr \<lparr>name = ''Straight'', score = 4000 + t,
          cards = map (\<lambda>v. find (\<lambda>c. cvalue c = v) sc) [t, t - 1, t - 2, t - 3, t - 4]\<rparr>"
  proof (rule straight_sorted [OF _ c run])
    show "W \<subseteq> rank ` set sc" using w f(1) by simp
    show "length sc \<le> 7" using len f(2) by simp
    show "length (filter (\<lambda>c. suit c = s) sc) < 5" for s using no_flush [of s] f(3) [of s] by simp
    show "cvalue k = getRankValue (rank k)" if "k \<in> set sc" for k using that by (rule f(4))
    show "\<not> {u - 4, u - 3, u - 2, u - 1, u} \<subseteq> cvalue ` set sc" if "t < u" for u
      using top [OF that] f(5) by simp
  qed
  then show ?thesis using len by (simp add: evaluateHand_def Let_def sc_def)
qed

section \<open>Claims about the hand evaluation\<close>

lemmas evaluation_defs =
  evaluateHand_def evaluateSorted_def orElse_def checkRoyalFlush_def checkStraightFlush_def
  checkFourOfAKind_def checkFullHouse_def checkFlush_def checkStraight_def
  checkThreeOfAKind_def checkTwoPair_def checkPair_def checkHighCard_def flushCards_def
  groupBySuit_def groupByRank_def groupByKey_def rankEntries_def isIndexKey_def
  uniqueValues_def withValue_def headValue_def headValueU_def cardOf_def nameAndScore_def

text \<open>
  C1. The claim: a higher score means a better poker hand, and in particular every Pair
  outscores every High Card. On the board Q-J-9-7-4 the hole cards A-K make only a High
  Card and the hole cards 2-2 make a Pair, yet \<^verbatim>\<open>evaluateHand\<close> scores the High Card
  154319 and the Pair 2519: \<^verbatim>\<open>checkHighCard\<close> weighs the top card by 10000, so its score
  leaves the band below 1000 that the category offsets 1000, 2000, .. 9000 reserve for it.
\<close>

theorem high_card_outscores_pair:
  "nameAndScore (evaluateHand [cardOf RA Spades, cardOf RK Diamonds] dryBoard)
     = Inr (''High Card'', 154319)
   \<and> nameAndScore (evaluateHand [cardOf R2 Clubs, cardOf R2 Diamonds] dryBoard)
     = Inr (''Pair'', 2519)"
  by (simp add: evaluation_defs dryBoard_def)

text \<open>
  C10. For every hole and community cards that total at least five cards,
  \<^verbatim>\<open>evaluateHand\<close> returns an evaluation (it does not throw) that carries one of the ten
  category names and an integer score; the chain of checks always ends in a result.
\<close>

theorem evaluateHand_total:
  "5 \<le> length (hole @ board) \<Longrightarrow>
     \<exists>v. evaluateHand hole board = Inr v \<and> name v \<in> set categoryNames"
proof -
  assume "5 \<le> length (hole @ board)"
  then have e: "evaluateHand hole board =
      evaluateSorted (sort_key (\<lambda>c. - cvalue c) (map withValue (hole @ board)))"
    by (simp add: evaluateHand_def Let_def)
  from evaluateSorted_returns obtain v where
    "evaluateSorted (sort_key (\<lambda>c. - cvalue c) (map withValue (hole @ board))) = Inr v" by blast
  with e evaluateSorted_name show ?thesis by auto
qed

theorem evaluateHand_total_witness:
  "5 \<le> length ([cardOf RA Spades, cardOf RK Diamonds] @ dryBoard)
   \<and> (\<exists>v. evaluateHand [cardOf RA Spades, cardOf RK Diamonds] dryBoard = Inr v
          \<and> name v \<in> set categoryNames)"
proof -
  have h: "5 \<le> length ([cardOf RA Spades, cardOf RK Diamonds] @ dryBoard)"
    by (simp add: dryBoard_def)
  from evaluateHand_total [OF h] h show ?thesis by blast
qed

text \<open>
  C9. Five to seven cards that hold an ace, a two, a three, a four and a five, with no suit
  held five times and no five consecutive values topped by a six or more, evaluate to a
  Straight of score 4005 whose first card is the five. Five to seven cards that hold a two,
  a three, a four, a five and a six, with no suit held five times and no five consecutive
  values topped by a seven or more, evaluate to a Straight of score 4006. Five to seven
  cards that hold a ten, a jack, a queen, a king and an ace, with no suit held five times,
  evaluate to a Straight of score 4014. So the wheel scores less than every six-high
  straight and differs from every ace-high straight.
\<close>

theorem wheel_is_five_high_straight:
  assumes len: "5 \<le> length (hole @ board)" "length (hole @ board) \<le> 7"
    and wheel: "{RA, R2, R3, R4, R5} \<subseteq> rank ` set (hole @ board)"
    and no_flush: "\<And>s. length (filter (\<lambda>c. suit c = s) (hole @ board)) < 5"
    and no_higher: "\<And>t. 6 \<le> t \<Longrightarrow>
        \<not> {t - 4, t - 3, t - 2, t - 1, t} \<subseteq> getRankValue ` rank ` set (hole @ board)"
    and len6: "5 \<le> length (hole6 @ board6)" "length (hole6 @ board6) \<le> 7"
    and six: "{R2, R3, R4, R5, R6} \<subseteq> rank ` set (hole6 @ board6)"
    and no_flush6: "\<And>s. length (filter (\<lambda>c. suit c = s) (hole6 @ board6)) < 5"
    and no_higher6: "\<And>t. 7 \<le> t \<Longrightarrow>
        \<not> {t - 4, t - 3, t - 2, t - 1, t} \<subseteq> getRankValue ` rank ` set (hole6 @ board6)"
    and lenA: "5 \<le> length (holeA @ boardA)" "length (holeA @ boardA) \<le> 7"
    and ace: "{R10, RJ, RQ, RK, RA} \<subseteq> rank ` set (holeA @ boardA)"
    and no_flushA: "\<And>s. length (filter (\<lambda>c. suit c = s) (holeA @ boardA)) < 5"
  shows "\<exists>v v6 vA. evaluateHand hole board = Inr v \<and> name v = ''Straight'' \<and> score v = 4005
           \<and> headValueU (cards v) = Inr 5
           \<and> evaluateHand hole6 board6 = Inr v6 \<and> name v6 = ''Straight'' \<and> score v6 = 4006
           \<and> evaluateHand holeA boardA = Inr vA \<and> name vA = ''Straight'' \<and> score vA = 4014
           \<and> score v < score v6 \<and> score v \<noteq> score vA"
proof -
  define sc where "sc = sort_key (\<lambda>c. - cvalue c) (map withValue (hole @ board))"
  note f = sorted_cards_facts [where cs = "hole @ board", folded sc_def]
  have "evaluateSorted sc =
     Inr \<lparr>name = ''Straight'', score = 4005,
          cards = map (\<lambda>v. find (\<lambda>c. cvalue c = v) sc) [5, 4, 3, 2, 14]\<rparr>"
  proof (rule wheel_sorted)
    show "{RA, R2, R3, R4, R5} \<subseteq> rank ` set sc" using wheel f(1) by simp
    show "length sc \<le> 7" using len f(2) by simp
    show "length (filter (\<lambda>c. suit c = s) sc) < 5" for s using no_flush [of s] f(3) [of s] by simp
    show "cvalue c = getRankValue (rank c)" if "c \<in> set sc" for c using that by (rule f(4))
    show "\<not> {t - 4, t - 3, t - 2, t - 1, t} \<subseteq> cvalue ` set sc" if "6 \<le> t" for t
      using no_higher [OF that] f(5) by simp
  qed
  then have e: "evaluateHand hole board =
     Inr \<lparr>name = ''Straight'', score = 4005,
          cards = map (\<lambda>v. find (\<lambda>c. cvalue c = v) sc) [5, 4, 3, 2, 14]\<rparr>"
    using len by (simp add: evaluateHand_def Let_def sc_def)
  have "5 \<in> cvalue ` set sc"
  proof -
    from wheel f(1) have "R5 \<in> rank ` set sc" by blast
    then obtain c where "c \<in> set sc" "rank c = R5" by (auto simp: image_iff)
    with f(4) [of c] show ?thesis by (auto simp: image_iff)
  qed
  then obtain c5 where c5: "find (\<lambda>c. cvalue c = 5) sc = Some c5" "cvalue c5 = 5"
    using find_by_value by blast
  have c6: "card {R2, R3, R4, R5, R6} = 5" by simp
  have run6: "getRankValue ` {R2, R3, R4, R5, R6} = {6 - 4, 6 - 3, 6 - 2, 6 - 1, 6}" by auto
  have top6: "\<not> {u - 4, u - 3, u - 2, u - 1, u} \<subseteq> getRankValue ` rank ` set (hole6 @ board6)"
    if "6 < u" for u using that no_higher6 [of u] by simp
  from straight_hand_is_recognised [OF len6 six c6 run6 no_flush6 top6]
  obtain v6 where v6: "evaluateHand hole6 board6 = Inr v6" "name v6 = ''Straight''" "score v6 = 4006"
    by auto
  have cA: "card {R10, RJ, RQ, RK, RA} = 5" by simp
  have runA: "getRankValue ` {R10, RJ, RQ, RK, RA} = {14 - 4, 14 - 3, 14 - 2, 14 - 1, 14}" by auto
  have topA: "\<not> {u - 4, u - 3, u - 2, u - 1, u} \<subseteq> getRankValue ` rank ` set (holeA @ boardA)"
    if "14 < u" for u
  proof
    assume "{u - 4, u - 3, u - 2, u - 1, u} \<subseteq> getRankValue ` rank ` set (holeA @ boardA)"
    then have "u \<in> getRankValue ` rank ` set (holeA @ boardA)" by simp
    then obtain r where "u = getRankValue r" by auto
    with getRankValue_le_14 [of r] that show False by simp
  qed
  from straight_hand_is_recognised [OF lenA ace cA runA no_flushA topA]
  obtain vA where vA: "evaluateHand holeA boardA = Inr vA" "name vA = ''Straight''" "score vA = 4014"
    by auto
  show ?thesis using e c5 v6 vA by (simp add: headValueU_def)
qed

theorem wheel_is_five_high_straight_witness:
  "\<exists>v v6 vA.
     evaluateHand [cardOf RA Diamonds, cardOf R2 Diamonds] wheelBoard = Inr v
     \<and> name v = ''Straight'' \<and> score v = 4005 \<and> headValueU (cards v) = Inr 5
     \<and> evaluateHand [cardOf R6 Diamonds, cardOf R2 Diamonds] wheelBoard = Inr v6
     \<and> name v6 = ''Straight'' \<and> score v6 = 4006
     \<and> evaluateHand [cardOf RA Spades, cardOf RK Diamonds] broadwayBoard = Inr vA
     \<and> name vA = ''Straight'' \<and> score vA = 4014
     \<and> score v < score v6 \<and> score v \<noteq> score vA"
proof -
  let ?hole = "[cardOf RA Diamonds, cardOf R2 Diamonds]"
  let ?hole6 = "[cardOf R6 Diamonds, cardOf R2 Diamonds]"
  let ?holeA = "[cardOf RA Spades, cardOf RK Diamonds]"
  have len: "5 \<le> length (?hole @ wheelBoard)" "length (?hole @ wheelBoard) \<le> 7"
    by (simp_all add: wheelBoard_def)
  have wheel: "{RA, R2, R3, R4, R5} \<subseteq> rank ` set (?hole @ wheelBoard)"
    by (simp add: wheelBoard_def cardOf_def)
  have no_flush: "length (filter (\<lambda>c. suit c = s) (?hole @ wheelBoard)) < 5" for s
    by (cases s) (simp_all add: wheelBoard_def cardOf_def)
  have no_higher: "\<not> {t - 4, t - 3, t - 2, t - 1, t} \<subseteq> getRankValue ` rank ` set (?hole @ wheelBoard)"
    if "6 \<le> t" for t
    using that by (auto simp: wheelBoard_def cardOf_def)
  have len6: "5 \<le> length (?hole6 @ wheelBoard)" "length (?hole6 @ wheelBoard) \<le> 7"
    by (simp_all add: wheelBoard_def)
  have six: "{R2, R3, R4, R5, R6} \<subseteq> rank ` set (?hole6 @ wheelBoard)"
    by (simp add: wheelBoard_def cardOf_def)
  have no_flush6: "length (filter (\<lambda>c. suit c = s) (?hole6 @ wheelBoard)) < 5" for s
    by (cases s) (simp_all add: wheelBoard_def cardOf_def)
  have no_higher6: "\<not> {t - 4, t - 3, t - 2, t - 1, t} \<subseteq> getRankValue ` rank ` set (?hole6 @ wheelBoard)"
    if "7 \<le> t" for t
    using that by (auto simp: wheelBoard_def cardOf_def)
  have lenA: "5 \<le> length (?holeA @ broadwayBoard)" "length (?holeA @ broadwayBoard) \<le> 7"
    by (simp_all add: broadwayBoard_def)
  have ace: "{R10, RJ, RQ, RK, RA} \<subseteq> rank ` set (?holeA @ broadwayBoard)"
    by (simp add: broadwayBoard_def cardOf_def)
  have no_flushA: "length (filter (\<lambda>c. suit c = s) (?holeA @ broadwayBoard)) < 5" for s
    by (cases s) (simp_all add: broadwayBoard_def cardOf_def)
  from wheel_is_five_high_straight [OF len wheel no_flush no_higher len6 six no_flush6 no_higher6
      lenA ace no_flushA]
  show ?thesis .
qed

section \<open>Claims about actions, hands and the view\<close>

lemma findIndex_Some:
  "findIndex P xs = Some i \<Longrightarrow> i < length xs \<and> P (xs ! i)"
proof (induction xs arbitrary: i)
  case Nil
  then show ?case by simp
next
  case (Cons x xs)
  then show ?case by (cases "P x") auto
qed

text \<open>
  C3, as stated, fails: a raise whose total exceeds the seat's chips plus its bet is not
  turned into an all-in. With 50 chips, nothing committed and a current bet of 10, a raise
  by 100 throws "Not enough chips" and changes nothing.
\<close>

theorem raise_beyond_stack_is_rejected:
  "processPlayerAction shortStackRoom ''P1'' ''raise'' 100 = Inl (NotEnoughChips, shortStackRoom)"
  by (simp add: processPlayerAction_def dispatchAction_def processRaise_def shortStackRoom_def
      tableOf_def seatOf_def createInitialGameState_def)

text \<open>
  C3, amended. A raise by the seat on turn (not folded) is rejected with "Not enough chips"
  when the current bet plus the amount exceeds the seat's chips plus its bet, and with
  "Raise must be at least minBet" when the amount is below the minimum bet; the room is
  unchanged in both cases. Otherwise the seat's bet becomes the current bet plus the amount,
  the difference to its previous bet moves from its chips to the pot, the current bet
  equals the seat's new bet, the last raiser is the seat and the acted list holds only the
  seat.
\<close>

theorem raise_commits_or_rejects:
  assumes seat: "findIndex (\<lambda>p. pid p = playerId) (players room) = Some i"
    and turn: "currentTurn room = Some playerId"
    and live: "folded (players room ! i) = False"
  shows "\<exists>r. processPlayerAction room playerId ''raise'' amount =
           (if chips (players room ! i) + bet (players room ! i) < currentBet room + amount
            then Inl (NotEnoughChips, room)
            else if amount < minBet room then Inl (RaiseTooSmall, room)
            else Inr r)
         \<and> bet (players r ! i) = currentBet room + amount
         \<and> chips (players r ! i)
             = chips (players room ! i) - (currentBet room + amount - bet (players room ! i))
         \<and> pot r = pot room + (currentBet room + amount - bet (players room ! i))
         \<and> currentBet r = bet (players r ! i)
         \<and> lastRaiser r = Some playerId
         \<and> playersActedThisRound r = [playerId]"
proof -
  from findIndex_Some [OF seat] have i: "i < length (players room)"
    and p: "pid (players room ! i) = playerId" by auto
  let ?p = "players room ! i"
  let ?total = "currentBet room + amount"
  let ?r = "setPlayer
       (room\<lparr>pot := pot room + (?total - bet ?p), currentBet := ?total,
              lastRaiser := Some (pid ?p), playersActedThisRound := [pid ?p]\<rparr>) i
       (markAllIn (?p\<lparr>chips := chips ?p - (?total - bet ?p), bet := ?total\<rparr>))"
  have "processPlayerAction room playerId ''raise'' amount =
           (if chips ?p + bet ?p < ?total then Inl (NotEnoughChips, room)
            else if amount < minBet room then Inl (RaiseTooSmall, room)
            else Inr ?r)"
    using seat turn live p
    by (simp add: processPlayerAction_def dispatchAction_def processRaise_def Let_def setPlayer_def)
  moreover have "bet (players ?r ! i) = ?total"
    "chips (players ?r ! i) = chips ?p - (?total - bet ?p)"
    "pot ?r = pot room + (?total - bet ?p)"
    "currentBet ?r = bet (players ?r ! i)"
    "lastRaiser ?r = Some playerId"
    "playersActedThisRound ?r = [playerId]"
    using i p by (simp_all add: setPlayer_def markAllIn_def)
  ultimately show ?thesis by blast
qed

theorem raise_commits_or_rejects_witness:
  "\<exists>r. processPlayerAction shortStackRoom ''P1'' ''raise'' 20 = Inr r
       \<and> bet (players r ! 0) = 30 \<and> chips (players r ! 0) = 20 \<and> pot r = 40
       \<and> currentBet r = 30 \<and> lastRaiser r = Some ''P1'' \<and> playersActedThisRound r = [''P1'']"
proof -
  have seat: "findIndex (\<lambda>p. pid p = ''P1'') (players shortStackRoom) = Some 0"
    and turn: "currentTurn shortStackRoom = Some ''P1''"
    and live: "folded (players shortStackRoom ! 0) = False"
    by (simp_all add: shortStackRoom_def tableOf_def seatOf_def createInitialGameState_def)
  have vals: "chips (players shortStackRoom ! 0) = 50" "bet (players shortStackRoom ! 0) = 0"
    "currentBet shortStackRoom = 10" "minBet shortStackRoom = 10" "pot shortStackRoom = 10"
    by (simp_all add: shortStackRoom_def tableOf_def seatOf_def createInitialGameState_def)
  from raise_commits_or_rejects [OF seat turn live, of 20]
  show ?thesis unfolding vals by auto
qed

lemma processBet_rejects:
  "0 < currentBet room \<or> amount < minBet room \<or> chips (players room ! i) < amount \<Longrightarrow>
     processBet room i amount =
       Inl (if 0 < currentBet room then CannotBet
            else if amount < minBet room then BetTooSmall else NotEnoughChips, room)"
  by (auto simp: processBet_def Let_def)

lemma processRaise_rejects:
  "chips (players room ! i) + bet (players room ! i) < currentBet room + amount \<Longrightarrow>
     processRaise room i amount = Inl (NotEnoughChips, room)"
  by (simp add: processRaise_def Let_def)

lemma dispatch_unknown:
  "action \<notin> set knownActions \<Longrightarrow> dispatchAction room i action amount = Inl (InvalidAction, room)"
  by (simp add: dispatchAction_def knownActions_def)

text \<open>
  C5. An action by a player who is not on turn, by a folded seat, a check below the
  current bet, a bet below the minimum, above the seat's chips or while a bet stands, a
  raise whose total exceeds chips plus bet, and an action name the engine does not know:
  each throws the error of the precondition it violates, and the room at the throw is the
  room before the call. The engine has no error classes: every rejection is
  \<^verbatim>\<open>new Error\<close> with the message of its precondition, one constructor of \<open>error\<close>
  per message, and none of them is the \<^verbatim>\<open>TypeError\<close> of a failed property read. The
  checks run in the order of the source: the player is looked up first ("Player not
  found"), then the turn ("Not your turn"), then the fold ("Player has folded"), then the
  action: "Cannot check when there is a bet to call"; for a bet "Cannot bet when there is
  already a bet", then "Bet must be at least minBet", then "Not enough chips"; for a raise
  "Not enough chips"; for an unknown name "Invalid action".
\<close>

theorem violation_is_rejected_without_effect:
  assumes "currentTurn room \<noteq> Some playerId
     \<or> (\<exists>i. findIndex (\<lambda>p. pid p = playerId) (players room) = Some i
          \<and> (folded (players room ! i)
             \<or> action = ''check'' \<and> bet (players room ! i) < currentBet room
             \<or> action = ''bet'' \<and> (amount < minBet room \<or> chips (players room ! i) < amount
                                   \<or> 0 < currentBet room)
             \<or> action = ''raise''
                 \<and> chips (players room ! i) + bet (players room ! i) < currentBet room + amount))
     \<or> action \<notin> set knownActions"
  shows "processPlayerAction room playerId action amount =
     Inl (case findIndex (\<lambda>p. pid p = playerId) (players room) of
            None \<Rightarrow> PlayerNotFound
          | Some i \<Rightarrow>
              if currentTurn room \<noteq> Some playerId then NotYourTurn
              else if folded (players room ! i) then PlayerHasFolded
              else if action = ''check'' then CannotCheck
              else if action = ''bet''
                then (if 0 < currentBet room then CannotBet
                      else if amount < minBet room then BetTooSmall
                      else NotEnoughChips)
              else if action = ''raise'' then NotEnoughChips
              else InvalidAction,
          room)"
proof (cases "findIndex (\<lambda>p. pid p = playerId) (players room)")
  case None
  then show ?thesis by (simp add: processPlayerAction_def)
next
  case (Some i)
  show ?thesis
  proof (cases "currentTurn room \<noteq> Some playerId \<or> folded (players room ! i)")
    case True
    with Some show ?thesis by (auto simp: processPlayerAction_def)
  next
    case False
    with assms Some consider
        (check) "action = ''check''" "bet (players room ! i) < currentBet room"
      | (bet) "action = ''bet''" "0 < currentBet room \<or> amount < minBet room
                \<or> chips (players room ! i) < amount"
      | (raise) "action = ''raise''"
          "chips (players room ! i) + bet (players room ! i) < currentBet room + amount"
      | (unknown) "action \<notin> set knownActions"
      by auto
    then have "dispatchAction room i action amount =
        Inl (if action = ''check'' then CannotCheck
             else if action = ''bet''
               then (if 0 < currentBet room then CannotBet
                     else if amount < minBet room then BetTooSmall
                     else NotEnoughChips)
             else if action = ''raise'' then NotEnoughChips
             else InvalidAction, room)"
    proof cases
      case check
      then show ?thesis by (simp add: dispatchAction_def)
    next
      case bet
      from processBet_rejects [OF bet(2)] bet(1) show ?thesis by (simp add: dispatchAction_def)
    next
      case raise
      from processRaise_rejects [OF raise(2)] raise(1) show ?thesis
        by (simp add: dispatchAction_def)
    next
      case unknown
      then have "action \<noteq> ''check''" "action \<noteq> ''bet''" "action \<noteq> ''raise''"
        by (auto simp: knownActions_def)
      with dispatch_unknown [OF unknown] show ?thesis by simp
    qed
    with Some False show ?thesis by (simp add: processPlayerAction_def)
  qed
qed

lemmas shortStackRoom_defs =
  shortStackRoom_def tableOf_def seatOf_def createInitialGameState_def

theorem violation_is_rejected_without_effect_witness:
  "processPlayerAction shortStackRoom ''P1'' ''check'' 0 = Inl (CannotCheck, shortStackRoom)
   \<and> processPlayerAction shortStackRoom ''P2'' ''call'' 0 = Inl (NotYourTurn, shortStackRoom)
   \<and> processPlayerAction shortStackRoom ''P3'' ''call'' 0 = Inl (PlayerNotFound, shortStackRoom)
   \<and> processPlayerAction shortStackRoom ''P1'' ''bet'' 20 = Inl (CannotBet, shortStackRoom)
   \<and> processPlayerAction shortStackRoom ''P1'' ''raise'' 100
       = Inl (NotEnoughChips, shortStackRoom)
   \<and> processPlayerAction shortStackRoom ''P1'' ''all-in'' 0
       = Inl (InvalidAction, shortStackRoom)
   \<and> processPlayerAction openingRoom ''P1'' ''bet'' 5 = Inl (BetTooSmall, openingRoom)
   \<and> processPlayerAction openingRoom ''P1'' ''bet'' 60 = Inl (NotEnoughChips, openingRoom)
   \<and> processPlayerAction openingRoom ''P2'' ''check'' 0 = Inl (NotYourTurn, openingRoom)
   \<and> processPlayerAction (openingRoom\<lparr>currentTurn := Some ''P2''\<rparr>) ''P2'' ''check'' 0
       = Inl (PlayerHasFolded, openingRoom\<lparr>currentTurn := Some ''P2''\<rparr>)"
proof -
  have seat: "findIndex (\<lambda>p. pid p = ''P1'') (players shortStackRoom) = Some 0"
    "findIndex (\<lambda>p. pid p = ''P2'') (players shortStackRoom) = Some 1"
    "findIndex (\<lambda>p. pid p = ''P3'') (players shortStackRoom) = None"
    by (simp_all add: shortStackRoom_defs)
  have vals: "bet (players shortStackRoom ! 0) = 0" "chips (players shortStackRoom ! 0) = 50"
    "folded (players shortStackRoom ! 0) = False"
    "currentBet shortStackRoom = 10" "currentTurn shortStackRoom = Some ''P1''"
    by (simp_all add: shortStackRoom_defs)
  have seat': "findIndex (\<lambda>p. pid p = ''P1'') (players openingRoom) = Some 0"
    "findIndex (\<lambda>p. pid p = ''P2'') (players openingRoom) = Some 1"
    by (simp_all add: openingRoom_def tableOf_def seatOf_def createInitialGameState_def)
  have vals': "bet (players openingRoom ! 0) = 0" "chips (players openingRoom ! 0) = 50"
    "folded (players openingRoom ! 0) = False" "folded (players openingRoom ! Suc 0) = True"
    "currentBet openingRoom = 0" "minBet openingRoom = 10"
    "currentTurn openingRoom = Some ''P1''"
    by (simp_all add: openingRoom_def tableOf_def seatOf_def createInitialGameState_def)
  have "processPlayerAction shortStackRoom ''P1'' ''check'' 0 = Inl (CannotCheck, shortStackRoom)"
    using violation_is_rejected_without_effect [of shortStackRoom "''P1''" "''check''" 0]
    by (simp add: seat vals)
  moreover have "processPlayerAction shortStackRoom ''P2'' ''call'' 0
      = Inl (NotYourTurn, shortStackRoom)"
    using violation_is_rejected_without_effect [of shortStackRoom "''P2''" "''call''" 0]
    by (simp add: seat vals)
  moreover have "processPlayerAction shortStackRoom ''P3'' ''call'' 0
      = Inl (PlayerNotFound, shortStackRoom)"
    using violation_is_rejected_without_effect [of shortStackRoom "''P3''" "''call''" 0]
    by (simp add: seat vals)
  moreover have "processPlayerAction shortStackRoom ''P1'' ''bet'' 20
      = Inl (CannotBet, shortStackRoom)"
    using violation_is_rejected_without_effect [of shortStackRoom "''P1''" "''bet''" 20]
    by (simp add: seat vals)
  moreover have "processPlayerAction shortStackRoom ''P1'' ''raise'' 100
      = Inl (NotEnoughChips, shortStackRoom)"
    using violation_is_rejected_without_effect [of shortStackRoom "''P1''" "''raise''" 100]
    by (simp add: seat vals)
  moreover have "processPlayerAction shortStackRoom ''P1'' ''all-in'' 0
      = Inl (InvalidAction, shortStackRoom)"
    using violation_is_rejected_without_effect [of shortStackRoom "''P1''" "''all-in''" 0]
    by (simp add: seat vals knownActions_def)
  moreover have "processPlayerAction openingRoom ''P1'' ''bet'' 5 = Inl (BetTooSmall, openingRoom)"
    using violation_is_rejected_without_effect [of openingRoom "''P1''" "''bet''" 5]
    by (simp add: seat' vals')
  moreover have "processPlayerAction openingRoom ''P1'' ''bet'' 60
      = Inl (NotEnoughChips, openingRoom)"
    using violation_is_rejected_without_effect [of openingRoom "''P1''" "''bet''" 60]
    by (simp add: seat' vals')
  moreover have "processPlayerAction openingRoom ''P2'' ''check'' 0
      = Inl (NotYourTurn, openingRoom)"
    using violation_is_rejected_without_effect [of openingRoom "''P2''" "''check''" 0]
    by (simp add: seat' vals')
  moreover have "processPlayerAction (openingRoom\<lparr>currentTurn := Some ''P2''\<rparr>) ''P2'' ''check'' 0
      = Inl (PlayerHasFolded, openingRoom\<lparr>currentTurn := Some ''P2''\<rparr>)"
    using violation_is_rejected_without_effect
      [of "openingRoom\<lparr>currentTurn := Some ''P2''\<rparr>" "''P2''" "''check''" 0]
    by (simp add: seat' vals')
  ultimately show ?thesis by blast
qed

text \<open>
  C6, as stated, fails for a seat on turn that holds no chips. Such a seat arises in play:
  \<^verbatim>\<open>startNewHand\<close> clears the all-in flag of every player and deals to every player, so
  a player who lost its stack in the previous hand is given the turn. Its all-in throws
  "No chips to go all-in with", nothing moves and the seat is not marked all-in.
\<close>

theorem allin_without_chips_is_rejected:
  "currentTurn bustedSeatRoom = Some ''P2''
   \<and> map (\<lambda>p. (pid p, chips p, folded p, allIn p)) (players bustedSeatRoom)
       = [(''P1'', 2000, False, False), (''P2'', 0, False, False), (''P3'', 980, False, False)]
   \<and> processPlayerAction bustedSeatRoom ''P2'' ''allin'' 0
       = Inl (NoChipsForAllIn, bustedSeatRoom)"
  by code_simp

text \<open>
  C6, amended. An all-in by the seat on turn that has not folded: if the seat holds no
  chips, the action throws "No chips to go all-in with" and the room is unchanged.
  Otherwise all its chips move to the pot and to its bet and the seat is marked all-in,
  with every other seat untouched. If the new bet exceeds the current bet, the current bet
  becomes the new bet, the last raiser is the seat and the acted list holds only the seat.
  Otherwise it is a call for less: the current bet and the last raiser stay, and the acted
  list only gains the seat.
\<close>

theorem allin_moves_whole_stack:
  assumes seat: "findIndex (\<lambda>p. pid p = playerId) (players room) = Some i"
    and turn: "currentTurn room = Some playerId"
    and live: "folded (players room ! i) = False"
  shows "if chips (players room ! i) \<le> 0
         then processPlayerAction room playerId ''allin'' amount = Inl (NoChipsForAllIn, room)
         else (\<exists>r. processPlayerAction room playerId ''allin'' amount = Inr r
           \<and> players r = (players room)
               [i := (players room ! i)\<lparr>bet := bet (players room ! i) + chips (players room ! i),
                                         chips := 0, allIn := True\<rparr>]
           \<and> pot r = pot room + chips (players room ! i)
           \<and> (if currentBet room < bet (players room ! i) + chips (players room ! i)
               then currentBet r = bet (players room ! i) + chips (players room ! i)
                    \<and> lastRaiser r = Some playerId
                    \<and> playersActedThisRound r = [playerId]
               else currentBet r = currentBet room
                    \<and> lastRaiser r = lastRaiser room
                    \<and> playersActedThisRound r =
                        (if playerId \<in> set (playersActedThisRound room)
                         then playersActedThisRound room
                         else playersActedThisRound room @ [playerId])))"
proof (cases "chips (players room ! i) \<le> 0")
  case True
  with seat turn live show ?thesis
    by (simp add: processPlayerAction_def dispatchAction_def processAllIn_def Let_def)
next
  case funded: False
  from findIndex_Some [OF seat] have i: "i < length (players room)"
    and p: "pid (players room ! i) = playerId" by auto
  show ?thesis
  proof (cases "currentBet room < bet (players room ! i) + chips (players room ! i)")
    case True
    with seat turn live funded p i show ?thesis
      by (simp add: processPlayerAction_def dispatchAction_def processAllIn_def Let_def
          setPlayer_def)
  next
    case False
    with seat turn live funded p i show ?thesis
      by (simp add: processPlayerAction_def dispatchAction_def processAllIn_def Let_def
          setPlayer_def)
  qed
qed

theorem allin_moves_whole_stack_witness:
  "(\<exists>r. processPlayerAction callForLessRoom ''P1'' ''allin'' 0 = Inr r
        \<and> map chips (players r) = [0, 500, 500] \<and> map bet (players r) = [50, 100, 100]
        \<and> map allIn (players r) = [True, False, False] \<and> pot r = 250
        \<and> currentBet r = 100 \<and> lastRaiser r = Some ''P2''
        \<and> playersActedThisRound r = [''P2'', ''P3'', ''P1''])
   \<and> (\<exists>r. processPlayerAction shortStackRoom ''P1'' ''allin'' 0 = Inr r
        \<and> map chips (players r) = [0, 500] \<and> map bet (players r) = [50, 10]
        \<and> pot r = 60 \<and> currentBet r = 50 \<and> lastRaiser r = Some ''P1''
        \<and> playersActedThisRound r = [''P1''])
   \<and> processPlayerAction emptyStackRoom ''P1'' ''allin'' 0
        = Inl (NoChipsForAllIn, emptyStackRoom)"
proof -
  have "findIndex (\<lambda>p. pid p = ''P1'') (players callForLessRoom) = Some 0"
    "currentTurn callForLessRoom = Some ''P1''"
    "folded (players callForLessRoom ! 0) = False"
    by (simp_all add: callForLessRoom_def tableOf_def seatOf_def createInitialGameState_def)
  from allin_moves_whole_stack [OF this, of 0]
  have a: "\<exists>r. processPlayerAction callForLessRoom ''P1'' ''allin'' 0 = Inr r
        \<and> map chips (players r) = [0, 500, 500] \<and> map bet (players r) = [50, 100, 100]
        \<and> map allIn (players r) = [True, False, False] \<and> pot r = 250
        \<and> currentBet r = 100 \<and> lastRaiser r = Some ''P2''
        \<and> playersActedThisRound r = [''P2'', ''P3'', ''P1'']"
    by (auto simp: callForLessRoom_def tableOf_def seatOf_def createInitialGameState_def)
  have "findIndex (\<lambda>p. pid p = ''P1'') (players shortStackRoom) = Some 0"
    "currentTurn shortStackRoom = Some ''P1''"
    "folded (players shortStackRoom ! 0) = False"
    by (simp_all add: shortStackRoom_defs)
  from allin_moves_whole_stack [OF this, of 0]
  have b: "\<exists>r. processPlayerAction shortStackRoom ''P1'' ''allin'' 0 = Inr r
        \<and> map chips (players r) = [0, 500] \<and> map bet (players r) = [50, 10]
        \<and> pot r = 60 \<and> currentBet r = 50 \<and> lastRaiser r = Some ''P1''
        \<and> playersActedThisRound r = [''P1'']"
    by (auto simp: shortStackRoom_defs)
  have "findIndex (\<lambda>p. pid p = ''P1'') (players emptyStackRoom) = Some 0"
    "currentTurn emptyStackRoom = Some ''P1''"
    "folded (players emptyStackRoom ! 0) = False"
    by (simp_all add: emptyStackRoom_def tableOf_def seatOf_def createInitialGameState_def)
  from allin_moves_whole_stack [OF this, of 0]
  have c: "processPlayerAction emptyStackRoom ''P1'' ''allin'' 0
        = Inl (NoChipsForAllIn, emptyStackRoom)"
    by (simp add: emptyStackRoom_def tableOf_def seatOf_def createInitialGameState_def)
  from a b c show ?thesis by blast
qed

text \<open>
  C2. The claim: at showdown the pot is split into side pots by committed level, so that
  with P1 committed 50, P2 and P3 committed 110 each and P1 holding the best hand, P1 wins
  150 and P2 wins 120. \<^verbatim>\<open>processShowdown\<close> has no committed amounts to look at: it awards
  the whole pot of 270 to the best hand. P1 (all-in, no chips left) ends with 270 and P2
  is paid nothing.
\<close>

theorem showdown_pays_whole_pot_to_best_hand:
  "showdownOutcome (processShowdown sidePotRoom) =
     Inr ([(''P1'', 3819), (''P2'', 3619), (''P3'', 3419)],
          [(''P1'', 270)],
          [(''P1'', 270), (''P2'', 90), (''P3'', 90)])"
  by code_simp

text \<open>
  C4. The claim: every hand start advances the dealer to the next seat with chips, so that
  in Scenario 1 the dealer moves from P1 to P2 after P3 wins. Scenario 1 on the engine:
  three seats with 1000 chips, P1 dealer, P2 and P3 post 5 and 10, P1 and P2 fold, P3 is
  awarded the pot. The next hand starts with the dealer index still 0 (P1), and the blinds
  again on P2 and P3: \<^verbatim>\<open>assignDealerAndBlinds\<close> only reduces the index modulo the number
  of seats with chips.
\<close>

theorem dealer_does_not_move:
  "dealerIndex firstHand = 0
   \<and> smallBlind firstHand = Some ''P2'' \<and> bigBlind firstHand = Some ''P3''
   \<and> map (\<lambda>p. (pid p, chips p)) (players afterAward)
       = [(''P1'', 1000), (''P2'', 995), (''P3'', 1005)]
   \<and> dealerIndex secondHand = 0
   \<and> smallBlind secondHand = Some ''P2'' \<and> bigBlind secondHand = Some ''P3''"
  by code_simp

text \<open>
  C8. The claim: the view built for broadcasting never exposes the deck, so two rooms that
  differ only in the deck have the same view. \<^verbatim>\<open>sanitizeRoomForBroadcast\<close> copies every
  field of the room, the deck among them, and replaces only the hands: the view of a room
  carries the room's deck, and two rooms that differ only in the deck have different views.
\<close>

theorem broadcast_view_contains_deck:
  "deck (sanitizeRoomForBroadcast (leakRoom [cardOf RA Spades])) = [cardOf RA Spades]
   \<and> sanitizeRoomForBroadcast (leakRoom [cardOf RA Spades])
       \<noteq> sanitizeRoomForBroadcast (leakRoom [cardOf RK Spades])"
  by (simp add: sanitizeRoomForBroadcast_def withPlayers_def leakRoom_def cardOf_def)


subsection \<open>The same for every room\<close>

text \<open>
  The two facts behind the worked examples of the dealer and of the view, for every room:
  a hand start leaves the dealer index as it is or reduces it modulo the number of seats
  with chips, and the view carries the deck of the room.
\<close>

lemma setPlayer_dealerIndex: "dealerIndex (setPlayer r i p) = dealerIndex r"
  by (simp add: setPlayer_def)

lemma postBlinds_dealerIndex: "dealerIndex (roomAfter (postBlinds r)) = dealerIndex r"
  by (simp add: postBlinds_def roomAfter_def Let_def setPlayer_dealerIndex split: option.splits)

lemma assignDealerAndBlinds_dealerIndex:
  "dealerIndex (roomAfter (assignDealerAndBlinds r)) =
     (if length (filter (\<lambda>p. 0 < chips p) (players r)) < 2 then dealerIndex r
      else dealerIndex r mod length (filter (\<lambda>p. 0 < chips p) (players r)))"
  by (simp add: assignDealerAndBlinds_def Let_def postBlinds_dealerIndex) (simp add: roomAfter_def)

lemma dealHoleCards_dealerIndex: "dealerIndex (dealHoleCards r) = dealerIndex r"
  by (simp add: dealHoleCards_def split: prod.splits)

lemma setFirstPlayerToAct_dealerIndex: "dealerIndex (setFirstPlayerToAct r) = dealerIndex r"
  by (simp add: setFirstPlayerToAct_def Let_def)

lemma startNewHand_dealerIndex:
  "dealerIndex (roomAfter (startNewHand r pick)) =
     (if length (players r) < 2 then dealerIndex r
      else if length (filter (\<lambda>p. 0 < chips p) (players r)) < 2 then dealerIndex r
      else dealerIndex r mod length (filter (\<lambda>p. 0 < chips p) (players r)))"
proof (cases "length (players r) < 2")
  case True
  then show ?thesis by (simp add: startNewHand_def roomAfter_def)
next
  case False
  define room3 where "room3 = r\<lparr>status := StatusPlaying, phase := Preflop, pot := 0,
                          communityCards := [], currentBet := 0, lastRaiser := None,
                          playersActedThisRound := [],
                   players := map (\<lambda>p. p\<lparr>hand := [], bet := 0, folded := False, allIn := False,
                                   pstatus := ''active''\<rparr>) (players r),
                   deck := shuffleDeck pick createDeck\<rparr>"
  have unf: "startNewHand r pick =
     (case assignDealerAndBlinds room3 of
        Inl t \<Rightarrow> Inl t
      | Inr room4 \<Rightarrow> Inr (setFirstPlayerToAct (dealHoleCards room4)))"
    using False by (simp add: startNewHand_def Let_def room3_def)
  have "dealerIndex (roomAfter (startNewHand r pick)) = dealerIndex (roomAfter (assignDealerAndBlinds room3))"
    unfolding unf
    by (cases "assignDealerAndBlinds room3")
       (simp_all add: roomAfter_def setFirstPlayerToAct_dealerIndex dealHoleCards_dealerIndex)
  moreover have "filter (\<lambda>p. 0 < chips p) (players room3)
      = map (\<lambda>p. p\<lparr>hand := [], bet := 0, folded := False, allIn := False,
                                   pstatus := ''active''\<rparr>) (filter (\<lambda>p. 0 < chips p) (players r))"
    by (simp add: room3_def filter_map comp_def)
  moreover have "dealerIndex room3 = dealerIndex r" by (simp add: room3_def)
  ultimately show ?thesis using False by (simp add: assignDealerAndBlinds_dealerIndex)
qed

lemma view_carries_deck: "deck (sanitizeRoomForBroadcast r) = deck r"
  by (simp add: sanitizeRoomForBroadcast_def withPlayers_def)

section \<open>Chip stacks stay non-negative\<close>













lemma funded_cong: "chips p' = chips p \<Longrightarrow> bet p' = bet p \<Longrightarrow> funded cb mb p' = funded cb mb p"
  by (simp add: funded_def)












lemma chips_markAllIn: "chips (markAllIn p) = chips p"
  by (simp add: markAllIn_def)





















end
